theory Spec2Isabelle
  imports Main "HOL-Library.Word"
begin

section \<open>Machine types\<close>

text \<open>
  Addresses of objects (native values and GObject instances alike) are natural numbers.
  The C integer types of \<^verbatim>\<open>table.cpp\<close> keep their widths: \<^verbatim>\<open>guint\<close> is 32 bits,
  \<^verbatim>\<open>guint64\<close> 64 bits; the native engine answers with \<^verbatim>\<open>int\<close> and \<^verbatim>\<open>int64_t\<close>.
  A word is a bit pattern: an unsigned type reads it with \<open>uint\<close> or \<open>unat\<close>, a
  signed type with \<open>sint\<close>.
\<close>

type_synonym addr = nat
type_synonym guint = "32 word"
type_synonym cint = "32 word"
type_synonym guint64 = "64 word"
type_synonym int64_t = "64 word"

text \<open>
  A \<^verbatim>\<open>std::shared_ptr<T>\<close> is the address of the object it shares, or empty
  (\<^verbatim>\<open>nullptr\<close>). The use count lives with the object, in the heap.
\<close>

type_synonym shared_ptr = "addr option"

text \<open>
  What can go wrong below the wrapper. None of these is an error value of the C API:
  each stands for undefined behaviour of the C++ program (a crash, in practice).
\<close>

datatype fault =
    NullDereference
  | UseAfterFree
  | OutOfBounds
  | InvalidInstance

section \<open>The native engine\<close>

text \<open>
  Modelled from the spec: the wrapped engine (\<^verbatim>\<open>arrow::Table\<close>, \<^verbatim>\<open>arrow::Column\<close>,
  \<^verbatim>\<open>arrow::Schema\<close>) is not part of the sources at hand. The spec describes a table as
  "composed of named columns and a schema", queried by "get name", "get schema",
  "get column at index", "get column count" and "get row count"; the records below
  hold exactly what these queries read.
\<close>

datatype arrow_Type = INT8 | INT32 | UINT16 | DOUBLE

record arrow_Field =
  field_name :: string
  field_type :: arrow_Type

record arrow_Schema =
  schema_fields :: "arrow_Field list"

record arrow_Column =
  column_field :: arrow_Field
  column_length :: int64_t

record arrow_Table =
  table_name :: string
  table_schema :: shared_ptr
  table_columns :: "shared_ptr list"
  table_num_rows :: int64_t

text \<open>A shared object with its control block.\<close>

record 'a cell =
  val :: 'a
  use_count :: nat

section \<open>The object framework\<close>

datatype GType = GARROW_TYPE_TABLE | GARROW_TYPE_COLUMN | GARROW_TYPE_SCHEMA

text \<open>
  Modelled from the spec: the object framework is a library outside the sources at hand,
  the "dynamic object system providing construction, property dispatch, and teardown
  hooks". A \<open>gobject\<close> is an instance of one of the three wrapper classes. Each
  class has a private struct with a single member, the shared pointer to its native
  value (\<^verbatim>\<open>GArrowTablePrivate\<close> has \<^verbatim>\<open>table\<close>); \<open>priv\<close> is that member.
  \<open>in_construction\<close> is the framework's own record of whether \<^verbatim>\<open>g_object_new\<close>
  has returned for this instance.
\<close>

record gobject =
  g_type :: GType
  priv :: shared_ptr
  in_construction :: bool

datatype warning =
    INVALID_PROPERTY_ID GType guint
  | NOT_WRITABLE string
  | CONSTRUCT_ONLY_AFTER_CONSTRUCTION string
  | NOT_READABLE string
  | NO_SUCH_PROPERTY string

text \<open>
  The state of the program: one heap for each kind of native value, the instances of
  the wrapper classes, the next address that an allocation gives, the addresses of the
  native tables destroyed so far, in order, and the warnings logged so far.
\<close>

record state =
  tables :: "addr \<rightharpoonup> arrow_Table cell"
  columns :: "addr \<rightharpoonup> arrow_Column cell"
  schemas :: "addr \<rightharpoonup> arrow_Schema cell"
  gobjects :: "addr \<rightharpoonup> gobject"
  next_addr :: addr
  destroyed :: "addr list"
  warnings :: "warning list"

section \<open>Shared ownership\<close>

text \<open>
  Modelled from the spec: \<^verbatim>\<open>std::shared_ptr\<close> is the C++ library's, not part of the
  sources at hand. The spec has the native value "reference-counted", held with "shared
  ownership semantics", its "lifetime = longest holder". Copying a shared pointer adds
  one owner; an empty pointer has nothing to count. An object whose count is zero has
  been destroyed: touching it is a use after free.
\<close>

definition sp_retain :: "(addr \<rightharpoonup> 'a cell) \<Rightarrow> shared_ptr \<Rightarrow> fault + (addr \<rightharpoonup> 'a cell)" where
  "sp_retain hp p =
     (case p of
        None \<Rightarrow> Inr hp
      | Some a \<Rightarrow>
          (case hp a of
             None \<Rightarrow> Inl UseAfterFree
           | Some c \<Rightarrow>
               if use_count c = 0 then Inl UseAfterFree
               else Inr (hp(a \<mapsto> c\<lparr>use_count := Suc (use_count c)\<rparr>))))"

definition retain_table :: "shared_ptr \<Rightarrow> state \<Rightarrow> fault + state" where
  "retain_table p s =
     (case sp_retain (tables s) p of Inl f \<Rightarrow> Inl f | Inr hp \<Rightarrow> Inr (s\<lparr>tables := hp\<rparr>))"

definition retain_column :: "shared_ptr \<Rightarrow> state \<Rightarrow> fault + state" where
  "retain_column p s =
     (case sp_retain (columns s) p of Inl f \<Rightarrow> Inl f | Inr hp \<Rightarrow> Inr (s\<lparr>columns := hp\<rparr>))"

definition retain_schema :: "shared_ptr \<Rightarrow> state \<Rightarrow> fault + state" where
  "retain_schema p s =
     (case sp_retain (schemas s) p of Inl f \<Rightarrow> Inl f | Inr hp \<Rightarrow> Inr (s\<lparr>schemas := hp\<rparr>))"

fun retain_columns :: "shared_ptr list \<Rightarrow> state \<Rightarrow> fault + state" where
  "retain_columns [] s = Inr s"
| "retain_columns (p # ps) s =
     (case retain_column p s of Inl f \<Rightarrow> Inl f | Inr s' \<Rightarrow> retain_columns ps s')"

text \<open>
  Destroying a shared pointer removes one owner. The last owner destroys the object:
  it leaves the heap and the destruction is logged in \<open>destroyed\<close>.
\<close>

definition release_column :: "shared_ptr \<Rightarrow> state \<Rightarrow> fault + state" where
  "release_column p s =
     (case p of
        None \<Rightarrow> Inr s
      | Some a \<Rightarrow>
          (case columns s a of
             None \<Rightarrow> Inl UseAfterFree
           | Some c \<Rightarrow>
               if use_count c = 0 then Inl UseAfterFree
               else if use_count c = 1
               then Inr (s\<lparr>columns := (columns s)(a := None), destroyed := destroyed s @ [a]\<rparr>)
               else Inr (s\<lparr>columns := (columns s)(a \<mapsto> c\<lparr>use_count := use_count c - 1\<rparr>)\<rparr>)))"

definition release_schema :: "shared_ptr \<Rightarrow> state \<Rightarrow> fault + state" where
  "release_schema p s =
     (case p of
        None \<Rightarrow> Inr s
      | Some a \<Rightarrow>
          (case schemas s a of
             None \<Rightarrow> Inl UseAfterFree
           | Some c \<Rightarrow>
               if use_count c = 0 then Inl UseAfterFree
               else if use_count c = 1
               then Inr (s\<lparr>schemas := (schemas s)(a := None), destroyed := destroyed s @ [a]\<rparr>)
               else Inr (s\<lparr>schemas := (schemas s)(a \<mapsto> c\<lparr>use_count := use_count c - 1\<rparr>)\<rparr>)))"

fun release_columns :: "shared_ptr list \<Rightarrow> state \<Rightarrow> fault + state" where
  "release_columns [] s = Inr s"
| "release_columns (p # ps) s =
     (case release_column p s of Inl f \<Rightarrow> Inl f | Inr s' \<Rightarrow> release_columns ps s')"

text \<open>
  The destructor of a table destroys its members in reverse order of declaration: the
  vector of column pointers, then the schema pointer.
\<close>

definition release_table :: "shared_ptr \<Rightarrow> state \<Rightarrow> fault + state" where
  "release_table p s =
     (case p of
        None \<Rightarrow> Inr s
      | Some a \<Rightarrow>
          (case tables s a of
             None \<Rightarrow> Inl UseAfterFree
           | Some c \<Rightarrow>
               if use_count c = 0 then Inl UseAfterFree
               else if use_count c = 1
               then
                 (case release_columns (table_columns (val c))
                         (s\<lparr>tables := (tables s)(a := None), destroyed := destroyed s @ [a]\<rparr>) of
                    Inl f \<Rightarrow> Inl f
                  | Inr s' \<Rightarrow> release_schema (table_schema (val c)) s')
               else Inr (s\<lparr>tables := (tables s)(a \<mapsto> c\<lparr>use_count := use_count c - 1\<rparr>)\<rparr>)))"

text \<open>\<^verbatim>\<open>shared_ptr::use_count()\<close>: the number of owners, zero once destroyed.\<close>

definition owners :: "(addr \<rightharpoonup> 'a cell) \<Rightarrow> addr \<Rightarrow> nat" where
  "owners hp a = (case hp a of None \<Rightarrow> 0 | Some c \<Rightarrow> use_count c)"

section \<open>The table wrapper: \<^verbatim>\<open>table.cpp\<close>\<close>

text \<open>
  \<^verbatim>\<open>GARROW_TABLE_GET_PRIVATE(obj)\<close>: the private struct of a table instance. Handing it
  anything else than a live table instance is outside the C contract.
\<close>

definition GARROW_TABLE_GET_PRIVATE :: "addr \<Rightarrow> state \<Rightarrow> fault + gobject" where
  "GARROW_TABLE_GET_PRIVATE obj s =
     (case gobjects s obj of
        None \<Rightarrow> Inl InvalidInstance
      | Some g \<Rightarrow> if g_type g = GARROW_TYPE_TABLE then Inr g else Inl InvalidInstance)"

text \<open>Storing into the single member of an instance's private struct.\<close>

definition store_priv :: "addr \<Rightarrow> shared_ptr \<Rightarrow> state \<Rightarrow> state" where
  "store_priv obj p s =
     s\<lparr>gobjects := (gobjects s)(obj := map_option (\<lambda>g. g\<lparr>priv := p\<rparr>) (gobjects s obj))\<rparr>"

text \<open>
  Modelled from the spec: \<^verbatim>\<open>G_OBJECT_CLASS(garrow_table_parent_class)->dispose(object)\<close>
  is the framework's, "the standard teardown chain for any base-object state"; the base
  class holds none of the state modelled here.
\<close>

definition g_object_real_dispose :: "addr \<Rightarrow> state \<Rightarrow> fault + state" where
  "g_object_real_dispose object s = Inr s"

text \<open>
  \<^verbatim>\<open>garrow_table_dispose\<close>: \<^verbatim>\<open>priv->table = nullptr\<close> empties the member and drops the
  owner it held, then the parent class disposes.
\<close>

definition garrow_table_dispose :: "addr \<Rightarrow> state \<Rightarrow> fault + state" where
  "garrow_table_dispose object s =
     (case GARROW_TABLE_GET_PRIVATE object s of
        Inl f \<Rightarrow> Inl f
      | Inr g \<Rightarrow>
          (case release_table (priv g) (store_priv object None s) of
             Inl f \<Rightarrow> Inl f
           | Inr s' \<Rightarrow> g_object_real_dispose object s'))"

section \<open>Properties and classes of the object framework\<close>

text \<open>
  Modelled from the spec: the property machinery of the framework, which is outside the
  sources at hand; a handle "exposes zero or more named properties, each either
  read-only or write-once-at-construction". What \<^verbatim>\<open>table.cpp\<close> uses of it is a pointer
  property, its flags, the class with its virtual functions, and the warning log.
  The value of a pointer property: \<^verbatim>\<open>NULL\<close>, or the address of a
  \<^verbatim>\<open>std::shared_ptr\<close> variable of the caller, seen through what that variable holds
  (which may itself be the empty pointer).
\<close>

datatype gpointer = NULL | AddressOf shared_ptr

datatype GParamFlags =
    G_PARAM_READABLE
  | G_PARAM_WRITABLE
  | G_PARAM_CONSTRUCT
  | G_PARAM_CONSTRUCT_ONLY

record GParamSpec =
  pspec_name :: string
  pspec_nick :: string
  pspec_blurb :: string
  pspec_flags :: "GParamFlags set"
  param_id :: guint

record GObjectClass =
  class_dispose :: "addr \<Rightarrow> state \<Rightarrow> fault + state"
  class_set_property :: "addr \<Rightarrow> guint \<Rightarrow> gpointer \<Rightarrow> GParamSpec \<Rightarrow> state \<Rightarrow> fault + state"
  class_get_property :: "addr \<Rightarrow> guint \<Rightarrow> gpointer \<Rightarrow> GParamSpec \<Rightarrow> state \<Rightarrow> gpointer \<times> state"
  class_properties :: "GParamSpec list"

definition g_warning :: "warning \<Rightarrow> state \<Rightarrow> state" where
  "g_warning w s = s\<lparr>warnings := warnings s @ [w]\<rparr>"

definition g_param_spec_pointer :: "string \<Rightarrow> string \<Rightarrow> string \<Rightarrow> GParamFlags set \<Rightarrow> GParamSpec" where
  "g_param_spec_pointer name nick blurb flags =
     \<lparr>pspec_name = name, pspec_nick = nick, pspec_blurb = blurb, pspec_flags = flags,
      param_id = 0\<rparr>"

definition g_object_class_install_property :: "GObjectClass \<Rightarrow> guint \<Rightarrow> GParamSpec \<Rightarrow> GObjectClass" where
  "g_object_class_install_property klass property_id pspec =
     klass\<lparr>class_properties := class_properties klass @ [pspec\<lparr>param_id := property_id\<rparr>]\<rparr>"

text \<open>The class of \<^verbatim>\<open>G_TYPE_OBJECT\<close>, the parent: no properties, and nothing to dispose here.\<close>

definition g_object_class :: GObjectClass where
  "g_object_class =
     \<lparr>class_dispose = g_object_real_dispose,
      class_set_property = (\<lambda>object prop_id value pspec s. Inr s),
      class_get_property = (\<lambda>object prop_id value pspec s. (value, s)),
      class_properties = []\<rparr>"

subsection \<open>The property functions of the table class\<close>

text \<open>\<^verbatim>\<open>enum { PROP_0, PROP_TABLE }\<close>\<close>

definition PROP_0 :: guint where
  "PROP_0 = 0"

definition PROP_TABLE :: guint where
  "PROP_TABLE = 1"

text \<open>
  \<^verbatim>\<open>garrow_table_set_property\<close>. For \<^verbatim>\<open>PROP_TABLE\<close> the value is cast to a pointer to a
  shared pointer and dereferenced, with no test for \<^verbatim>\<open>NULL\<close>; the copy assignment to
  \<^verbatim>\<open>priv->table\<close> adds an owner to the new object and drops the owner of the old one.
\<close>

definition garrow_table_set_property :: "addr \<Rightarrow> guint \<Rightarrow> gpointer \<Rightarrow> GParamSpec \<Rightarrow> state \<Rightarrow> fault + state" where
  "garrow_table_set_property object prop_id value pspec s =
     (case GARROW_TABLE_GET_PRIVATE object s of
        Inl f \<Rightarrow> Inl f
      | Inr g \<Rightarrow>
          if prop_id = PROP_TABLE then
            (case value of
               NULL \<Rightarrow> Inl NullDereference
             | AddressOf p \<Rightarrow>
                 (case retain_table p s of
                    Inl f \<Rightarrow> Inl f
                  | Inr s1 \<Rightarrow> release_table (priv g) (store_priv object p s1)))
          else Inr (g_warning (INVALID_PROPERTY_ID GARROW_TYPE_TABLE prop_id) s))"

text \<open>\<^verbatim>\<open>garrow_table_get_property\<close>: the \<^verbatim>\<open>switch\<close> has the \<^verbatim>\<open>default\<close> branch only.\<close>

definition garrow_table_get_property :: "addr \<Rightarrow> guint \<Rightarrow> gpointer \<Rightarrow> GParamSpec \<Rightarrow> state \<Rightarrow> gpointer \<times> state" where
  "garrow_table_get_property object prop_id value pspec s =
     (value, g_warning (INVALID_PROPERTY_ID GARROW_TYPE_TABLE prop_id) s)"

text \<open>\<^verbatim>\<open>garrow_table_init\<close> has an empty body.\<close>

definition garrow_table_init :: "addr \<Rightarrow> state \<Rightarrow> state" where
  "garrow_table_init object s = s"

text \<open>
  \<^verbatim>\<open>garrow_table_class_init\<close>: the three virtual functions, and the one property
  \<^verbatim>\<open>"table"\<close>, writable and construct-only (it is not readable).
\<close>

definition garrow_table_class_init :: "GObjectClass \<Rightarrow> GObjectClass" where
  "garrow_table_class_init klass =
     g_object_class_install_property
       (klass\<lparr>class_dispose := garrow_table_dispose,
              class_set_property := garrow_table_set_property,
              class_get_property := garrow_table_get_property\<rparr>)
       PROP_TABLE
       (g_param_spec_pointer ''table'' ''Table'' ''The raw std::shared<arrow::Table> *''
          {G_PARAM_WRITABLE, G_PARAM_CONSTRUCT_ONLY})"

definition garrow_table_class :: GObjectClass where
  "garrow_table_class = garrow_table_class_init g_object_class"

subsection \<open>Construction and property dispatch by the framework\<close>

text \<open>
  Modelled from the spec: the framework is a library outside the sources at hand; these
  are the parts of its behaviour that the table class relies on, and that the spec names:
  construction "by injected property", a property that is "write-once-at-construction",
  an invalid access "surfaced as a framework-level warning". \<^verbatim>\<open>g_object_new\<close> allocates a
  zero-filled instance, runs the instance initialiser, and then sets every construct
  property of the class: to the value the caller gave, or to the default of the property
  (\<^verbatim>\<open>NULL\<close> for a pointer property) when the caller gave none. A name that is not a
  property of the class ends the caller's list with a warning.
\<close>

definition find_pspec :: "GObjectClass \<Rightarrow> string \<Rightarrow> GParamSpec option" where
  "find_pspec klass name = find (\<lambda>p. pspec_name p = name) (class_properties klass)"

definition is_construct :: "GParamSpec \<Rightarrow> bool" where
  "is_construct pspec \<longleftrightarrow>
     G_PARAM_CONSTRUCT \<in> pspec_flags pspec \<or> G_PARAM_CONSTRUCT_ONLY \<in> pspec_flags pspec"

fun valid_params :: "GObjectClass \<Rightarrow> (string \<times> gpointer) list \<Rightarrow> state \<Rightarrow> (string \<times> gpointer) list \<times> state" where
  "valid_params klass [] s = ([], s)"
| "valid_params klass ((name, v) # rest) s =
     (case find_pspec klass name of
        None \<Rightarrow> ([], g_warning (NO_SUCH_PROPERTY name) s)
      | Some pspec \<Rightarrow>
          if G_PARAM_WRITABLE \<notin> pspec_flags pspec then ([], g_warning (NOT_WRITABLE name) s)
          else (case valid_params klass rest s of (ps, s') \<Rightarrow> ((name, v) # ps, s')))"

fun set_construct_properties :: "GObjectClass \<Rightarrow> addr \<Rightarrow> GParamSpec list \<Rightarrow> (string \<times> gpointer) list \<Rightarrow> state \<Rightarrow> fault + state" where
  "set_construct_properties klass object [] params s = Inr s"
| "set_construct_properties klass object (pspec # pspecs) params s =
     (case class_set_property klass object (param_id pspec)
             (case map_of params (pspec_name pspec) of None \<Rightarrow> NULL | Some v \<Rightarrow> v) pspec s of
        Inl f \<Rightarrow> Inl f
      | Inr s' \<Rightarrow> set_construct_properties klass object pspecs params s')"

fun set_other_properties :: "GObjectClass \<Rightarrow> addr \<Rightarrow> (string \<times> gpointer) list \<Rightarrow> state \<Rightarrow> fault + state" where
  "set_other_properties klass object [] s = Inr s"
| "set_other_properties klass object ((name, v) # rest) s =
     (case find_pspec klass name of
        None \<Rightarrow> set_other_properties klass object rest s
      | Some pspec \<Rightarrow>
          if is_construct pspec then set_other_properties klass object rest s
          else
            (case class_set_property klass object (param_id pspec) v pspec s of
               Inl f \<Rightarrow> Inl f
             | Inr s' \<Rightarrow> set_other_properties klass object rest s'))"

definition end_construction :: "addr \<Rightarrow> state \<Rightarrow> state" where
  "end_construction object s =
     s\<lparr>gobjects := (gobjects s)(object := map_option (\<lambda>g. g\<lparr>in_construction := False\<rparr>) (gobjects s object))\<rparr>"

definition g_object_new :: "GObjectClass \<Rightarrow> GType \<Rightarrow> (addr \<Rightarrow> state \<Rightarrow> state) \<Rightarrow> (string \<times> gpointer) list \<Rightarrow> state \<Rightarrow> fault + (addr \<times> state)" where
  "g_object_new klass object_type instance_init params s =
     (case valid_params klass params s of
        (ps, s0) \<Rightarrow>
          (let object = next_addr s0;
               s1 = instance_init object
                      (s0\<lparr>gobjects := (gobjects s0)(object \<mapsto>
                             \<lparr>g_type = object_type, priv = None, in_construction = True\<rparr>),
                          next_addr := Suc object\<rparr>)
           in case set_construct_properties klass object
                     (filter is_construct (class_properties klass)) ps s1 of
                Inl f \<Rightarrow> Inl f
              | Inr s2 \<Rightarrow>
                  (case set_other_properties klass object ps (end_construction object s2) of
                     Inl f \<Rightarrow> Inl f
                   | Inr s3 \<Rightarrow> Inr (object, s3))))"

text \<open>
  Modelled from the spec ("Attempting to set the underlying value property again is
  rejected by the framework"): \<^verbatim>\<open>g_object_set_property\<close> refuses, with a warning, a
  property that is not writable,
  and a construct-only property once the object is out of construction; only otherwise
  does it call the class. \<^verbatim>\<open>g_object_get_property\<close> refuses a property that is not
  readable.
\<close>

definition g_object_set_property :: "GObjectClass \<Rightarrow> addr \<Rightarrow> string \<Rightarrow> gpointer \<Rightarrow> state \<Rightarrow> fault + state" where
  "g_object_set_property klass object property_name value s =
     (case gobjects s object of
        None \<Rightarrow> Inl InvalidInstance
      | Some g \<Rightarrow>
          (case find_pspec klass property_name of
             None \<Rightarrow> Inr (g_warning (NO_SUCH_PROPERTY property_name) s)
           | Some pspec \<Rightarrow>
               if G_PARAM_WRITABLE \<notin> pspec_flags pspec
               then Inr (g_warning (NOT_WRITABLE property_name) s)
               else if G_PARAM_CONSTRUCT_ONLY \<in> pspec_flags pspec \<and> \<not> in_construction g
               then Inr (g_warning (CONSTRUCT_ONLY_AFTER_CONSTRUCTION property_name) s)
               else class_set_property klass object (param_id pspec) value pspec s))"

definition g_object_get_property :: "GObjectClass \<Rightarrow> addr \<Rightarrow> string \<Rightarrow> gpointer \<Rightarrow> state \<Rightarrow> fault + (gpointer \<times> state)" where
  "g_object_get_property klass object property_name value s =
     (case gobjects s object of
        None \<Rightarrow> Inl InvalidInstance
      | Some g \<Rightarrow>
          (case find_pspec klass property_name of
             None \<Rightarrow> Inr (value, g_warning (NO_SUCH_PROPERTY property_name) s)
           | Some pspec \<Rightarrow>
               if G_PARAM_READABLE \<notin> pspec_flags pspec
               then Inr (value, g_warning (NOT_READABLE property_name) s)
               else Inr (class_get_property klass object (param_id pspec) value pspec s)))"

section \<open>Queries of the native engine\<close>

text \<open>
  Modelled from the spec: the member functions of the absent \<^verbatim>\<open>arrow::Table\<close> and
  \<^verbatim>\<open>arrow::Column\<close> that \<^verbatim>\<open>table.cpp\<close> calls. They read the fields; the column count
  is the size of the vector as an \<^verbatim>\<open>int\<close>; \<^verbatim>\<open>column(i)\<close> indexes the vector with no
  check, so an index outside of it is undefined behaviour ("whatever the underlying
  native value's own indexing defines").
\<close>

definition Table_name :: "arrow_Table \<Rightarrow> string" where
  "Table_name t = table_name t"

definition Table_schema :: "arrow_Table \<Rightarrow> shared_ptr" where
  "Table_schema t = table_schema t"

definition Table_column :: "arrow_Table \<Rightarrow> cint \<Rightarrow> fault + shared_ptr" where
  "Table_column t i =
     (if 0 \<le> sint i \<and> nat (sint i) < length (table_columns t)
      then Inr (table_columns t ! nat (sint i))
      else Inl OutOfBounds)"

definition Table_num_columns :: "arrow_Table \<Rightarrow> cint" where
  "Table_num_columns t = word_of_nat (length (table_columns t))"

definition Table_num_rows :: "arrow_Table \<Rightarrow> int64_t" where
  "Table_num_rows t = table_num_rows t"

definition Column_name :: "arrow_Column \<Rightarrow> string" where
  "Column_name c = field_name (column_field c)"

definition Column_length :: "arrow_Column \<Rightarrow> int64_t" where
  "Column_length c = column_length c"

text \<open>\<^verbatim>\<open>p->\<close>: following a shared pointer to its object.\<close>

definition deref :: "(addr \<rightharpoonup> 'a cell) \<Rightarrow> shared_ptr \<Rightarrow> fault + 'a" where
  "deref hp p =
     (case p of
        None \<Rightarrow> Inl NullDereference
      | Some a \<Rightarrow>
          (case hp a of
             None \<Rightarrow> Inl UseAfterFree
           | Some c \<Rightarrow> if use_count c = 0 then Inl UseAfterFree else Inr (val c)))"

text \<open>
  Modelled from the spec: the constructor of the absent \<^verbatim>\<open>arrow::Table\<close> from a name, a
  schema and columns. The table keeps its own copies of the shared pointers; its number
  of rows is the length of the first column, or zero without columns.
\<close>

definition Table_ctor :: "string \<Rightarrow> shared_ptr \<Rightarrow> shared_ptr list \<Rightarrow> state \<Rightarrow> fault + (arrow_Table \<times> state)" where
  "Table_ctor name schema cols s =
     (case retain_schema schema s of
        Inl f \<Rightarrow> Inl f
      | Inr s1 \<Rightarrow>
          (case retain_columns cols s1 of
             Inl f \<Rightarrow> Inl f
           | Inr s2 \<Rightarrow>
               (case cols of
                  [] \<Rightarrow>
                    Inr (\<lparr>table_name = name, table_schema = schema, table_columns = cols,
                          table_num_rows = 0\<rparr>, s2)
                | c0 # _ \<Rightarrow>
                    (case deref (columns s2) c0 of
                       Inl f \<Rightarrow> Inl f
                     | Inr col \<Rightarrow>
                         Inr (\<lparr>table_name = name, table_schema = schema, table_columns = cols,
                               table_num_rows = Column_length col\<rparr>, s2)))))"

text \<open>\<^verbatim>\<open>std::make_shared<arrow::Table>(...)\<close>: a new object with one owner.\<close>

definition make_shared_Table :: "string \<Rightarrow> shared_ptr \<Rightarrow> shared_ptr list \<Rightarrow> state \<Rightarrow> fault + (shared_ptr \<times> state)" where
  "make_shared_Table name schema cols s =
     (case Table_ctor name schema cols s of
        Inl f \<Rightarrow> Inl f
      | Inr (t, s1) \<Rightarrow>
          Inr (Some (next_addr s1),
               s1\<lparr>tables := (tables s1)(next_addr s1 \<mapsto> \<lparr>val = t, use_count = 1\<rparr>),
                  next_addr := Suc (next_addr s1)\<rparr>))"

section \<open>The sibling wrappers\<close>

text \<open>
  Modelled from the spec: \<^verbatim>\<open>column.cpp\<close> and \<^verbatim>\<open>schema.cpp\<close> are absent. Every wrapper
  is "an instantiation" of the one handle pattern: the construct-from-existing path
  "wrap(nativeValueRef) -> Handle" stores the reference "as private state", the raw
  getter hands it back, and a string accessor exposes "borrowed read-only pointers".
\<close>

definition garrow_column_new_raw :: "gpointer \<Rightarrow> state \<Rightarrow> fault + (addr \<times> state)" where
  "garrow_column_new_raw arrow_column s =
     (case arrow_column of
        NULL \<Rightarrow> Inl NullDereference
      | AddressOf p \<Rightarrow>
          (case retain_column p s of
             Inl f \<Rightarrow> Inl f
           | Inr s1 \<Rightarrow>
               Inr (next_addr s1,
                    s1\<lparr>gobjects := (gobjects s1)(next_addr s1 \<mapsto>
                          \<lparr>g_type = GARROW_TYPE_COLUMN, priv = p, in_construction = False\<rparr>),
                       next_addr := Suc (next_addr s1)\<rparr>)))"

definition garrow_schema_new_raw :: "gpointer \<Rightarrow> state \<Rightarrow> fault + (addr \<times> state)" where
  "garrow_schema_new_raw arrow_schema s =
     (case arrow_schema of
        NULL \<Rightarrow> Inl NullDereference
      | AddressOf p \<Rightarrow>
          (case retain_schema p s of
             Inl f \<Rightarrow> Inl f
           | Inr s1 \<Rightarrow>
               Inr (next_addr s1,
                    s1\<lparr>gobjects := (gobjects s1)(next_addr s1 \<mapsto>
                          \<lparr>g_type = GARROW_TYPE_SCHEMA, priv = p, in_construction = False\<rparr>),
                       next_addr := Suc (next_addr s1)\<rparr>)))"

definition garrow_column_get_raw :: "addr \<Rightarrow> state \<Rightarrow> fault + (shared_ptr \<times> state)" where
  "garrow_column_get_raw column s =
     (case gobjects s column of
        None \<Rightarrow> Inl InvalidInstance
      | Some g \<Rightarrow>
          if g_type g \<noteq> GARROW_TYPE_COLUMN then Inl InvalidInstance
          else (case retain_column (priv g) s of
                  Inl f \<Rightarrow> Inl f
                | Inr s' \<Rightarrow> Inr (priv g, s')))"

definition garrow_schema_get_raw :: "addr \<Rightarrow> state \<Rightarrow> fault + (shared_ptr \<times> state)" where
  "garrow_schema_get_raw schema s =
     (case gobjects s schema of
        None \<Rightarrow> Inl InvalidInstance
      | Some g \<Rightarrow>
          if g_type g \<noteq> GARROW_TYPE_SCHEMA then Inl InvalidInstance
          else (case retain_schema (priv g) s of
                  Inl f \<Rightarrow> Inl f
                | Inr s' \<Rightarrow> Inr (priv g, s')))"

section \<open>Borrowed strings\<close>

text \<open>
  A \<^verbatim>\<open>const gchar *\<close> returned by an accessor points into the character buffer of a
  native object; nothing is copied. The buffer of a \<^verbatim>\<open>std::string\<close> holds its bytes
  and a terminating zero byte, and it can be read for as long as the object lives.
\<close>

datatype gchar_ptr = TableNameBuffer addr | ColumnNameBuffer addr

definition c_str :: "string \<Rightarrow> string" where
  "c_str str = str @ [CHR 0x00]"

definition buffer_at :: "gchar_ptr \<Rightarrow> state \<Rightarrow> fault + string" where
  "buffer_at p s =
     (case p of
        TableNameBuffer a \<Rightarrow>
          (case deref (tables s) (Some a) of Inl f \<Rightarrow> Inl f | Inr t \<Rightarrow> Inr (c_str (Table_name t)))
      | ColumnNameBuffer a \<Rightarrow>
          (case deref (columns s) (Some a) of Inl f \<Rightarrow> Inl f | Inr c \<Rightarrow> Inr (c_str (Column_name c))))"

text \<open>Modelled from the spec: the name accessor of the absent \<^verbatim>\<open>column.cpp\<close>.\<close>

definition garrow_column_get_name :: "addr \<Rightarrow> state \<Rightarrow> fault + (gchar_ptr \<times> state)" where
  "garrow_column_get_name column s =
     (case garrow_column_get_raw column s of
        Inl f \<Rightarrow> Inl f
      | Inr (arrow_column, s1) \<Rightarrow>
          (case deref (columns s1) arrow_column of
             Inl f \<Rightarrow> Inl f
           | Inr c \<Rightarrow>
               (case release_column arrow_column s1 of
                  Inl f \<Rightarrow> Inl f
                | Inr s2 \<Rightarrow> Inr (ColumnNameBuffer (the arrow_column), s2))))"

section \<open>The public functions of \<^verbatim>\<open>table.cpp\<close>\<close>

text \<open>
  \<^verbatim>\<open>garrow_table_new_raw\<close>: \<^verbatim>\<open>g_object_new(GARROW_TYPE_TABLE, "table", arrow_table, NULL)\<close>.
\<close>

definition garrow_table_new_raw :: "gpointer \<Rightarrow> state \<Rightarrow> fault + (addr \<times> state)" where
  "garrow_table_new_raw arrow_table s =
     g_object_new garrow_table_class GARROW_TYPE_TABLE garrow_table_init
       [(''table'', arrow_table)] s"

text \<open>
  \<^verbatim>\<open>garrow_table_get_raw\<close> returns \<^verbatim>\<open>priv->table\<close> by value: the caller receives a copy,
  one more owner, which it drops when its local variable goes out of scope.
\<close>

definition garrow_table_get_raw :: "addr \<Rightarrow> state \<Rightarrow> fault + (shared_ptr \<times> state)" where
  "garrow_table_get_raw table s =
     (case GARROW_TABLE_GET_PRIVATE table s of
        Inl f \<Rightarrow> Inl f
      | Inr g \<Rightarrow>
          (case retain_table (priv g) s of
             Inl f \<Rightarrow> Inl f
           | Inr s' \<Rightarrow> Inr (priv g, s')))"

text \<open>The implicit conversions at the boundary: the value modulo \<open>2 ^ 32\<close> or \<open>2 ^ 64\<close>.\<close>

definition guint_of_int :: "cint \<Rightarrow> guint" where
  "guint_of_int x = word_of_int (sint x)"

definition int_of_guint :: "guint \<Rightarrow> cint" where
  "int_of_guint x = word_of_int (uint x)"

definition guint64_of_int64 :: "int64_t \<Rightarrow> guint64" where
  "guint64_of_int64 x = word_of_int (sint x)"

text \<open>\<^verbatim>\<open>garrow_table_get_name\<close>: \<^verbatim>\<open>arrow_table->name().c_str()\<close>.\<close>

definition garrow_table_get_name :: "addr \<Rightarrow> state \<Rightarrow> fault + (gchar_ptr \<times> state)" where
  "garrow_table_get_name table s =
     (case garrow_table_get_raw table s of
        Inl f \<Rightarrow> Inl f
      | Inr (arrow_table, s1) \<Rightarrow>
          (case deref (tables s1) arrow_table of
             Inl f \<Rightarrow> Inl f
           | Inr t \<Rightarrow>
               (case release_table arrow_table s1 of
                  Inl f \<Rightarrow> Inl f
                | Inr s2 \<Rightarrow> Inr (TableNameBuffer (the arrow_table), s2))))"

text \<open>
  \<^verbatim>\<open>garrow_table_get_schema\<close>: the native schema pointer is copied out of the table and
  wrapped; the two local copies are dropped on return, the later one first.
\<close>

definition garrow_table_get_schema :: "addr \<Rightarrow> state \<Rightarrow> fault + (addr \<times> state)" where
  "garrow_table_get_schema table s =
     (case garrow_table_get_raw table s of
        Inl f \<Rightarrow> Inl f
      | Inr (arrow_table, s1) \<Rightarrow>
          (case deref (tables s1) arrow_table of
             Inl f \<Rightarrow> Inl f
           | Inr t \<Rightarrow>
               (case retain_schema (Table_schema t) s1 of
                  Inl f \<Rightarrow> Inl f
                | Inr s2 \<Rightarrow>
                    (case garrow_schema_new_raw (AddressOf (Table_schema t)) s2 of
                       Inl f \<Rightarrow> Inl f
                     | Inr (h, s3) \<Rightarrow>
                         (case release_schema (Table_schema t) s3 of
                            Inl f \<Rightarrow> Inl f
                          | Inr s4 \<Rightarrow>
                              (case release_table arrow_table s4 of
                                 Inl f \<Rightarrow> Inl f
                               | Inr s5 \<Rightarrow> Inr (h, s5)))))))"

text \<open>
  \<^verbatim>\<open>garrow_table_get_column\<close>: \<^verbatim>\<open>arrow_table->column(i)\<close> receives the \<^verbatim>\<open>guint\<close> as its
  \<^verbatim>\<open>int\<close> parameter; the wrapper compares \<open>i\<close> with nothing.
\<close>

definition garrow_table_get_column :: "addr \<Rightarrow> guint \<Rightarrow> state \<Rightarrow> fault + (addr \<times> state)" where
  "garrow_table_get_column table i s =
     (case garrow_table_get_raw table s of
        Inl f \<Rightarrow> Inl f
      | Inr (arrow_table, s1) \<Rightarrow>
          (case deref (tables s1) arrow_table of
             Inl f \<Rightarrow> Inl f
           | Inr t \<Rightarrow>
               (case Table_column t (int_of_guint i) of
                  Inl f \<Rightarrow> Inl f
                | Inr arrow_column \<Rightarrow>
                    (case retain_column arrow_column s1 of
                       Inl f \<Rightarrow> Inl f
                     | Inr s2 \<Rightarrow>
                         (case garrow_column_new_raw (AddressOf arrow_column) s2 of
                            Inl f \<Rightarrow> Inl f
                          | Inr (h, s3) \<Rightarrow>
                              (case release_column arrow_column s3 of
                                 Inl f \<Rightarrow> Inl f
                               | Inr s4 \<Rightarrow>
                                   (case release_table arrow_table s4 of
                                      Inl f \<Rightarrow> Inl f
                                    | Inr s5 \<Rightarrow> Inr (h, s5))))))))"

text \<open>\<^verbatim>\<open>garrow_table_get_n_columns\<close> and \<^verbatim>\<open>garrow_table_get_n_rows\<close>.\<close>

definition garrow_table_get_n_columns :: "addr \<Rightarrow> state \<Rightarrow> fault + (guint \<times> state)" where
  "garrow_table_get_n_columns table s =
     (case garrow_table_get_raw table s of
        Inl f \<Rightarrow> Inl f
      | Inr (arrow_table, s1) \<Rightarrow>
          (case deref (tables s1) arrow_table of
             Inl f \<Rightarrow> Inl f
           | Inr t \<Rightarrow>
               (case release_table arrow_table s1 of
                  Inl f \<Rightarrow> Inl f
                | Inr s2 \<Rightarrow> Inr (guint_of_int (Table_num_columns t), s2))))"

definition garrow_table_get_n_rows :: "addr \<Rightarrow> state \<Rightarrow> fault + (guint64 \<times> state)" where
  "garrow_table_get_n_rows table s =
     (case garrow_table_get_raw table s of
        Inl f \<Rightarrow> Inl f
      | Inr (arrow_table, s1) \<Rightarrow>
          (case deref (tables s1) arrow_table of
             Inl f \<Rightarrow> Inl f
           | Inr t \<Rightarrow>
               (case release_table arrow_table s1 of
                  Inl f \<Rightarrow> Inl f
                | Inr s2 \<Rightarrow> Inr (guint64_of_int64 (Table_num_rows t), s2))))"

text \<open>
  \<^verbatim>\<open>garrow_table_new\<close>. The loop walks the \<^verbatim>\<open>GList\<close> and pushes the raw pointer of each
  column handle; the table is made from the name, the raw schema and the vector; the
  temporary schema pointer goes at the end of that statement, the locals
  \<^verbatim>\<open>arrow_table\<close> and \<^verbatim>\<open>arrow_columns\<close> on return.
\<close>

fun push_back_columns :: "addr list \<Rightarrow> shared_ptr list \<Rightarrow> state \<Rightarrow> fault + (shared_ptr list \<times> state)" where
  "push_back_columns [] arrow_columns s = Inr (arrow_columns, s)"
| "push_back_columns (column # node) arrow_columns s =
     (case garrow_column_get_raw column s of
        Inl f \<Rightarrow> Inl f
      | Inr (p, s') \<Rightarrow> push_back_columns node (arrow_columns @ [p]) s')"

definition garrow_table_new :: "string \<Rightarrow> addr \<Rightarrow> addr list \<Rightarrow> state \<Rightarrow> fault + (addr \<times> state)" where
  "garrow_table_new name schema cols s =
     (case push_back_columns cols [] s of
        Inl f \<Rightarrow> Inl f
      | Inr (arrow_columns, s1) \<Rightarrow>
          (case garrow_schema_get_raw schema s1 of
             Inl f \<Rightarrow> Inl f
           | Inr (arrow_schema, s2) \<Rightarrow>
               (case make_shared_Table name arrow_schema arrow_columns s2 of
                  Inl f \<Rightarrow> Inl f
                | Inr (arrow_table, s3) \<Rightarrow>
                    (case release_schema arrow_schema s3 of
                       Inl f \<Rightarrow> Inl f
                     | Inr s4 \<Rightarrow>
                         (case garrow_table_new_raw (AddressOf arrow_table) s4 of
                            Inl f \<Rightarrow> Inl f
                          | Inr (h, s5) \<Rightarrow>
                              (case release_table arrow_table s5 of
                                 Inl f \<Rightarrow> Inl f
                               | Inr s6 \<Rightarrow>
                                   (case release_columns arrow_columns s6 of
                                      Inl f \<Rightarrow> Inl f
                                    | Inr s7 \<Rightarrow> Inr (h, s7))))))))"

section \<open>Vocabulary of the statements\<close>

text \<open>
  A pointer is live when it is not null and its object has an owner. \<open>occurrences\<close>
  counts how often an address stands in a vector of pointers; \<open>more_owners\<close> and
  \<open>fewer_owners\<close> change every use count of a heap by a given amount.
\<close>

definition live :: "(addr \<rightharpoonup> 'a cell) \<Rightarrow> shared_ptr \<Rightarrow> bool" where
  "live hp p =
     (case p of
        None \<Rightarrow> False
      | Some a \<Rightarrow> (case hp a of None \<Rightarrow> False | Some c \<Rightarrow> 0 < use_count c))"

definition occurrences :: "shared_ptr list \<Rightarrow> addr \<Rightarrow> nat" where
  "occurrences ps a = count_list ps (Some a)"

definition more_owners :: "(addr \<Rightarrow> nat) \<Rightarrow> (addr \<rightharpoonup> 'a cell) \<Rightarrow> (addr \<rightharpoonup> 'a cell)" where
  "more_owners f hp = (\<lambda>a. map_option (\<lambda>c. c\<lparr>use_count := use_count c + f a\<rparr>) (hp a))"

definition fewer_owners :: "(addr \<Rightarrow> nat) \<Rightarrow> (addr \<rightharpoonup> 'a cell) \<Rightarrow> (addr \<rightharpoonup> 'a cell)" where
  "fewer_owners f hp = (\<lambda>a. map_option (\<lambda>c. c\<lparr>use_count := use_count c - f a\<rparr>) (hp a))"

text \<open>The pointer a handle stores, whatever its class.\<close>

definition raw_of :: "state \<Rightarrow> addr \<Rightarrow> shared_ptr" where
  "raw_of s h = (case gobjects s h of None \<Rightarrow> None | Some g \<Rightarrow> priv g)"

text \<open>
  \<open>wraps s h a V\<close>: in state \<open>s\<close>, \<open>h\<close> is a table handle whose private pointer is
  the address \<open>a\<close> of the live native table \<open>V\<close>.
\<close>

definition wraps :: "state \<Rightarrow> addr \<Rightarrow> addr \<Rightarrow> arrow_Table \<Rightarrow> bool" where
  "wraps s h a V =
     (case gobjects s h of
        None \<Rightarrow> False
      | Some g \<Rightarrow>
          g_type g = GARROW_TYPE_TABLE \<and> priv g = Some a \<and>
          (case tables s a of None \<Rightarrow> False | Some c \<Rightarrow> 0 < use_count c \<and> val c = V))"

definition column_handle_ok :: "state \<Rightarrow> addr \<Rightarrow> bool" where
  "column_handle_ok s h =
     (case gobjects s h of
        None \<Rightarrow> False
      | Some g \<Rightarrow> g_type g = GARROW_TYPE_COLUMN \<and> live (columns s) (priv g))"

definition schema_handle_ok :: "state \<Rightarrow> addr \<Rightarrow> bool" where
  "schema_handle_ok s h =
     (case gobjects s h of
        None \<Rightarrow> False
      | Some g \<Rightarrow> g_type g = GARROW_TYPE_SCHEMA \<and> live (schemas s) (priv g))"

text \<open>The native table that \<^verbatim>\<open>garrow_table_new\<close> builds from a name and handles.\<close>

definition first_length :: "state \<Rightarrow> shared_ptr list \<Rightarrow> int64_t" where
  "first_length s ps =
     (case ps of
        [] \<Rightarrow> 0
      | p # _ \<Rightarrow> (case deref (columns s) p of Inl f \<Rightarrow> 0 | Inr c \<Rightarrow> Column_length c))"

definition built_table :: "string \<Rightarrow> addr \<Rightarrow> addr list \<Rightarrow> state \<Rightarrow> arrow_Table" where
  "built_table name schema cols s =
     \<lparr>table_name = name, table_schema = raw_of s schema,
      table_columns = map (raw_of s) cols,
      table_num_rows = first_length s (map (raw_of s) cols)\<rparr>"

text \<open>
  A small world to run the functions in: a native column \<open>a\<close> of 32-bit integers with
  no rows at address 0, a native schema of that one field at address 1, and their
  handles at addresses 2 and 3.
\<close>

definition field_a :: arrow_Field where
  "field_a = \<lparr>field_name = ''a'', field_type = INT32\<rparr>"

definition scenario :: state where
  "scenario =
     \<lparr>tables = Map.empty,
      columns = [0 \<mapsto> \<lparr>val = \<lparr>column_field = field_a, column_length = 0\<rparr>, use_count = 1\<rparr>],
      schemas = [1 \<mapsto> \<lparr>val = \<lparr>schema_fields = [field_a]\<rparr>, use_count = 1\<rparr>],
      gobjects =
        [2 \<mapsto> \<lparr>g_type = GARROW_TYPE_COLUMN, priv = Some 0, in_construction = False\<rparr>,
         3 \<mapsto> \<lparr>g_type = GARROW_TYPE_SCHEMA, priv = Some 1, in_construction = False\<rparr>],
      next_addr = 4, destroyed = [], warnings = []\<rparr>"

text \<open>
  The same world after \<^verbatim>\<open>garrow_table_new("t", schema, [column])\<close>: the native table
  at address 4, its handle at address 5; and after that handle has been disposed.
\<close>

definition table_t :: arrow_Table where
  "table_t = \<lparr>table_name = ''t'', table_schema = Some 1, table_columns = [Some 0], table_num_rows = 0\<rparr>"

definition table_world :: state where
  "table_world =
     \<lparr>tables = [4 \<mapsto> \<lparr>val = table_t, use_count = 1\<rparr>],
      columns = [0 \<mapsto> \<lparr>val = \<lparr>column_field = field_a, column_length = 0\<rparr>, use_count = 2\<rparr>],
      schemas = [1 \<mapsto> \<lparr>val = \<lparr>schema_fields = [field_a]\<rparr>, use_count = 2\<rparr>],
      gobjects =
        [2 \<mapsto> \<lparr>g_type = GARROW_TYPE_COLUMN, priv = Some 0, in_construction = False\<rparr>,
         3 \<mapsto> \<lparr>g_type = GARROW_TYPE_SCHEMA, priv = Some 1, in_construction = False\<rparr>,
         5 \<mapsto> \<lparr>g_type = GARROW_TYPE_TABLE, priv = Some 4, in_construction = False\<rparr>],
      next_addr = 6, destroyed = [], warnings = []\<rparr>"

definition disposed_world :: state where
  "disposed_world =
     \<lparr>tables = Map.empty,
      columns = [0 \<mapsto> \<lparr>val = \<lparr>column_field = field_a, column_length = 0\<rparr>, use_count = 1\<rparr>],
      schemas = [1 \<mapsto> \<lparr>val = \<lparr>schema_fields = [field_a]\<rparr>, use_count = 1\<rparr>],
      gobjects =
        [2 \<mapsto> \<lparr>g_type = GARROW_TYPE_COLUMN, priv = Some 0, in_construction = False\<rparr>,
         3 \<mapsto> \<lparr>g_type = GARROW_TYPE_SCHEMA, priv = Some 1, in_construction = False\<rparr>,
         5 \<mapsto> \<lparr>g_type = GARROW_TYPE_TABLE, priv = None, in_construction = False\<rparr>],
      next_addr = 6, destroyed = [4], warnings = []\<rparr>"

section \<open>Calls of the interface\<close>

text \<open>
  What a caller can do with a table handle once it has one: the accessors, a property
  write or read through the framework, and the teardown. \<open>call_table\<close> runs one of
  them and keeps the state only.
\<close>

datatype table_call =
    Get_name
  | Get_schema
  | Get_column guint
  | Get_n_columns
  | Get_n_rows
  | Set_property string gpointer
  | Get_property string gpointer
  | Dispose

fun call_table :: "table_call \<Rightarrow> addr \<Rightarrow> state \<Rightarrow> fault + state" where
  "call_table Get_name h s = map_sum id snd (garrow_table_get_name h s)"
| "call_table Get_schema h s = map_sum id snd (garrow_table_get_schema h s)"
| "call_table (Get_column i) h s = map_sum id snd (garrow_table_get_column h i s)"
| "call_table Get_n_columns h s = map_sum id snd (garrow_table_get_n_columns h s)"
| "call_table Get_n_rows h s = map_sum id snd (garrow_table_get_n_rows h s)"
| "call_table (Set_property name v) h s = g_object_set_property garrow_table_class h name v s"
| "call_table (Get_property name v) h s =
     map_sum id snd (g_object_get_property garrow_table_class h name v s)"
| "call_table Dispose h s = garrow_table_dispose h s"

text \<open>
  A caller can also make handles: wrap a native table it holds, or build a table from
  handles. \<open>run_calls\<close> runs a sequence of calls and stops at the first fault.
\<close>

datatype api_call =
    On_handle table_call addr
  | Wrap gpointer
  | Construct string addr "addr list"

fun run_call :: "api_call \<Rightarrow> state \<Rightarrow> fault + state" where
  "run_call (On_handle c h) s = call_table c h s"
| "run_call (Wrap v) s = map_sum id snd (garrow_table_new_raw v s)"
| "run_call (Construct name schema cols) s = map_sum id snd (garrow_table_new name schema cols s)"

fun run_calls :: "api_call list \<Rightarrow> state \<Rightarrow> fault + state" where
  "run_calls [] s = Inr s"
| "run_calls (c # cs) s = (case run_call c s of Inl f \<Rightarrow> Inl f | Inr s' \<Rightarrow> run_calls cs s')"

section \<open>Well-formed stores\<close>

text \<open>
  The handles that hold the native table at an address, and the stores that the calls
  above produce from the empty store: finitely many handles, each out of construction
  and below the next free address, every native table below the next free address, and
  no native table with more handles holding it than it has owners.
\<close>

definition holders :: "state \<Rightarrow> addr \<Rightarrow> addr set" where
  "holders s a =
     {h. \<exists>g. gobjects s h = Some g \<and> g_type g = GARROW_TYPE_TABLE \<and> priv g = Some a}"

definition well_formed :: "state \<Rightarrow> bool" where
  "well_formed s \<longleftrightarrow>
     finite (dom (gobjects s)) \<and>
     (\<forall>h g. gobjects s h = Some g \<longrightarrow> \<not> in_construction g \<and> h < next_addr s) \<and>
     (\<forall>a. (\<forall>c. tables s a = Some c \<longrightarrow> a < next_addr s) \<and>
          card (holders s a) \<le> owners (tables s) a)"

definition empty_store :: state where
  "empty_store =
     \<lparr>tables = Map.empty, columns = Map.empty, schemas = Map.empty, gobjects = Map.empty,
      next_addr = 0, destroyed = [], warnings = []\<rparr>"

section \<open>Further vocabulary\<close>

text \<open>The types of the engine that count as integer types.\<close>

definition integer_type :: "arrow_Type \<Rightarrow> bool" where
  "integer_type t = (case t of INT8 \<Rightarrow> True | INT32 \<Rightarrow> True | UINT16 \<Rightarrow> True | DOUBLE \<Rightarrow> False)"

text \<open>
  A store with \<open>2 ^ 32\<close> native columns at the addresses below \<open>2 ^ 32\<close>, the handle
  of column \<open>k\<close> at address \<open>2 ^ 32 + k\<close>, a schema at \<open>2 ^ 33\<close> and its handle at
  \<open>2 ^ 33 + 1\<close>; the list of all the column handles; and the store after
  \<^verbatim>\<open>garrow_table_new\<close> has made a table from them.
\<close>

definition wide_columns :: "addr list" where
  "wide_columns = [4294967296..<8589934592]"

definition wide_world :: state where
  "wide_world =
     \<lparr>tables = Map.empty,
      columns = (\<lambda>a. if a < 4294967296
                     then Some \<lparr>val = \<lparr>column_field = field_a, column_length = 0\<rparr>, use_count = 1\<rparr>
                     else None),
      schemas = [8589934592 \<mapsto> \<lparr>val = \<lparr>schema_fields = [field_a]\<rparr>, use_count = 1\<rparr>],
      gobjects = (\<lambda>h. if 4294967296 \<le> h \<and> h < 8589934592
                      then Some \<lparr>g_type = GARROW_TYPE_COLUMN, priv = Some (h - 4294967296),
                                 in_construction = False\<rparr>
                      else if h = 8589934593
                      then Some \<lparr>g_type = GARROW_TYPE_SCHEMA, priv = Some 8589934592,
                                 in_construction = False\<rparr>
                      else None),
      next_addr = 8589934594, destroyed = [], warnings = []\<rparr>"

definition wide_table_world :: state where
  "wide_table_world =
     wide_world
       \<lparr>tables := (tables wide_world)(8589934594 \<mapsto>
           \<lparr>val = built_table ''t'' 8589934593 wide_columns wide_world, use_count = 1\<rparr>),
        columns := more_owners (occurrences (map (raw_of wide_world) wide_columns)) (columns wide_world),
        schemas := more_owners (occurrences [raw_of wide_world 8589934593]) (schemas wide_world),
        gobjects := (gobjects wide_world)(8589934595 \<mapsto>
           \<lparr>g_type = GARROW_TYPE_TABLE, priv = Some 8589934594, in_construction = False\<rparr>),
        next_addr := 8589934596\<rparr>"

text \<open>
  What a teardown needs. The destructor of a native table drops one owner of a column
  for every place that the column has in the vector, and one owner of the schema:
  \<open>members_owned\<close> says that the columns and the schema have these owners. A pointer
  to a table is \<open>releasable\<close> when it is empty, or when the table it points to has an
  owner and, where that is its last owner, has its members owned.
\<close>

definition members_owned :: "state \<Rightarrow> arrow_Table \<Rightarrow> bool" where
  "members_owned s V =
     ((\<forall>p \<in> set (table_columns V).
         case p of None \<Rightarrow> True
         | Some a \<Rightarrow> occurrences (table_columns V) a \<le> owners (columns s) a) \<and>
      (case table_schema V of None \<Rightarrow> True | Some b \<Rightarrow> 0 < owners (schemas s) b))"

definition releasable :: "state \<Rightarrow> shared_ptr \<Rightarrow> bool" where
  "releasable s p =
     (case p of
        None \<Rightarrow> True
      | Some a \<Rightarrow>
          (case tables s a of
             None \<Rightarrow> False
           | Some c \<Rightarrow> 0 < use_count c \<and> (use_count c = 1 \<longrightarrow> members_owned s (val c))))"

text \<open>
  The small world with the native column gone while the table \<open>t\<close> still points to
  it.
\<close>

definition dangling_world :: state where
  "dangling_world = table_world\<lparr>columns := Map.empty\<rparr>"

text \<open>
  A native table without columns whose \<^verbatim>\<open>num_rows()\<close> is -1, at address 4, its
  schema without fields at address 1, and the store in which the handle at address 5
  wraps the table.
\<close>

definition negative_table :: arrow_Table where
  "negative_table = \<lparr>table_name = ''n'', table_schema = Some 1, table_columns = [], table_num_rows = - 1\<rparr>"

definition negative_world :: state where
  "negative_world =
     \<lparr>tables = [4 \<mapsto> \<lparr>val = negative_table, use_count = 1\<rparr>],
      columns = Map.empty,
      schemas = [1 \<mapsto> \<lparr>val = \<lparr>schema_fields = []\<rparr>, use_count = 1\<rparr>],
      gobjects = [5 \<mapsto> \<lparr>g_type = GARROW_TYPE_TABLE, priv = Some 4, in_construction = False\<rparr>],
      next_addr = 6, destroyed = [], warnings = []\<rparr>"

section \<open>What a release leaves alone\<close>

lemma release_column_frame:
  "release_column p s = Inr s' \<Longrightarrow>
     gobjects s' = gobjects s \<and> tables s' = tables s \<and> schemas s' = schemas s \<and>
     next_addr s' = next_addr s \<and> warnings s' = warnings s"
  by (auto simp: release_column_def split: option.splits if_splits)

lemma release_schema_frame:
  "release_schema p s = Inr s' \<Longrightarrow>
     gobjects s' = gobjects s \<and> tables s' = tables s \<and> columns s' = columns s \<and>
     next_addr s' = next_addr s \<and> warnings s' = warnings s"
  by (auto simp: release_schema_def split: option.splits if_splits)

lemma release_columns_frame:
  "release_columns ps s = Inr s' \<Longrightarrow>
     gobjects s' = gobjects s \<and> tables s' = tables s \<and> schemas s' = schemas s \<and>
     next_addr s' = next_addr s \<and> warnings s' = warnings s"
proof (induction ps arbitrary: s)
  case Nil
  then show ?case by simp
next
  case (Cons p ps)
  then show ?case
    by (auto split: sum.splits dest!: release_column_frame)
qed

lemma release_table_frame:
  "release_table p s = Inr s' \<Longrightarrow>
     gobjects s' = gobjects s \<and> next_addr s' = next_addr s \<and> warnings s' = warnings s"
  by (auto simp: release_table_def split: option.splits if_splits sum.splits
      dest!: release_columns_frame release_schema_frame)

lemma release_table_owners:
  "release_table (Some a) s = Inr s' \<Longrightarrow>
     Suc (owners (tables s') a) = owners (tables s) a \<and> (\<forall>b. b \<noteq> a \<longrightarrow> tables s' b = tables s b)"
  by (auto simp: release_table_def owners_def split: option.splits if_splits sum.splits
      dest!: release_columns_frame release_schema_frame)

lemma store_priv_idem:
  "gobjects s h = Some g \<Longrightarrow> priv g = p \<Longrightarrow> store_priv h p s = s"
  by (auto simp: store_priv_def fun_upd_idem)

section \<open>The class of tables\<close>

lemma garrow_table_class_simps:
  "class_properties garrow_table_class =
     [\<lparr>pspec_name = ''table'', pspec_nick = ''Table'',
       pspec_blurb = ''The raw std::shared<arrow::Table> *'',
       pspec_flags = {G_PARAM_WRITABLE, G_PARAM_CONSTRUCT_ONLY}, param_id = PROP_TABLE\<rparr>]"
  "class_set_property garrow_table_class = garrow_table_set_property"
  "class_get_property garrow_table_class = garrow_table_get_property"
  "class_dispose garrow_table_class = garrow_table_dispose"
  by (simp_all add: garrow_table_class_def garrow_table_class_init_def g_object_class_def
      g_object_class_install_property_def g_param_spec_pointer_def)

lemma garrow_table_new_raw_eq:
  "garrow_table_new_raw p s =
     (case p of
        NULL \<Rightarrow> Inl NullDereference
      | AddressOf q \<Rightarrow>
          (case retain_table q s of
             Inl f \<Rightarrow> Inl f
           | Inr s1 \<Rightarrow>
               Inr (next_addr s,
                    s1\<lparr>gobjects := (gobjects s)(next_addr s \<mapsto>
                          \<lparr>g_type = GARROW_TYPE_TABLE, priv = q, in_construction = False\<rparr>),
                       next_addr := Suc (next_addr s)\<rparr>)))"
  by (auto simp: garrow_table_new_raw_def g_object_new_def garrow_table_class_simps
      find_pspec_def is_construct_def g_warning_def garrow_table_init_def
      garrow_table_set_property_def GARROW_TABLE_GET_PRIVATE_def retain_table_def sp_retain_def
      store_priv_def release_table_def end_construction_def Let_def
      split: gpointer.splits option.splits sum.splits)

section \<open>Accessors on a wrapped table\<close>

lemma retain_release_table:
  assumes "tables s a = Some c" "0 < use_count c"
  shows "retain_table (Some a) s = Inr (s\<lparr>tables := (tables s)(a \<mapsto> c\<lparr>use_count := Suc (use_count c)\<rparr>)\<rparr>)"
    and "release_table (Some a) (s\<lparr>tables := (tables s)(a \<mapsto> c\<lparr>use_count := Suc (use_count c)\<rparr>)\<rparr>) = Inr s"
  using assms by (auto simp: retain_table_def sp_retain_def release_table_def fun_upd_idem)

lemma accessor_frame:
  assumes "wraps s h a V"
  shows "\<exists>s1. garrow_table_get_raw h s = Inr (Some a, s1) \<and> deref (tables s1) (Some a) = Inr V \<and>
              release_table (Some a) s1 = Inr s"
proof -
  from assms obtain g c where g: "gobjects s h = Some g" "g_type g = GARROW_TYPE_TABLE" "priv g = Some a"
    and c: "tables s a = Some c" "0 < use_count c" "val c = V"
    by (auto simp: wraps_def split: option.splits)
  show ?thesis
    using g c retain_release_table [OF c(1,2)]
    by (simp add: garrow_table_get_raw_def GARROW_TABLE_GET_PRIVATE_def deref_def)
qed

lemma get_n_columns_wraps:
  "wraps s h a V \<Longrightarrow> garrow_table_get_n_columns h s = Inr (guint_of_int (Table_num_columns V), s)"
  by (drule accessor_frame) (auto simp: garrow_table_get_n_columns_def)

lemma get_n_rows_wraps:
  "wraps s h a V \<Longrightarrow> garrow_table_get_n_rows h s = Inr (guint64_of_int64 (Table_num_rows V), s)"
  by (drule accessor_frame) (auto simp: garrow_table_get_n_rows_def)

lemma get_name_wraps:
  "wraps s h a V \<Longrightarrow> garrow_table_get_name h s = Inr (TableNameBuffer a, s)"
  by (drule accessor_frame) (auto simp: garrow_table_get_name_def)

lemma buffer_wraps:
  "wraps s h a V \<Longrightarrow> buffer_at (TableNameBuffer a) s = Inr (c_str (Table_name V))"
  by (auto simp: wraps_def buffer_at_def deref_def split: option.splits)

section \<open>Conversions\<close>

lemma guint_of_int_same_bits: "guint_of_int x = x"
  by (simp add: guint_of_int_def)

lemma guint64_of_int64_same_bits: "guint64_of_int64 x = x"
  by (simp add: guint64_of_int64_def)

lemma int_of_guint_same_bits: "int_of_guint x = x"
  by (simp add: int_of_guint_def)

text \<open>
  Read as numbers: the conversion keeps a value that is not negative and adds \<open>2 ^ 32\<close>
  (or \<open>2 ^ 64\<close>) to a negative one.
\<close>

lemma uint_guint_of_int: "uint (guint_of_int x) = sint x mod 4294967296"
  unfolding guint_of_int_def uint_word_of_int by simp

lemma uint_guint64_of_int64: "uint (guint64_of_int64 x) = sint x mod 18446744073709551616"
  unfolding guint64_of_int64_def uint_word_of_int by simp

lemma sint_mod_32:
  fixes x :: cint
  shows "(0 \<le> sint x \<longrightarrow> sint x mod 4294967296 = sint x) \<and>
         (sint x < 0 \<longrightarrow> sint x mod 4294967296 = sint x + 4294967296)"
proof -
  have "- (2 ^ 31) \<le> sint x" "sint x < 2 ^ 31"
    using sint_ge [of x] sint_lt [of x] by simp_all
  then have b: "- 2147483648 \<le> sint x" "sint x < 2147483648" by simp_all
  show ?thesis
  proof (intro conjI impI)
    assume "0 \<le> sint x"
    with b show "sint x mod 4294967296 = sint x" by simp
  next
    assume n: "sint x < 0"
    have "sint x mod 4294967296 = (sint x + 4294967296) mod 4294967296" by simp
    also have "\<dots> = sint x + 4294967296"
      by (rule mod_pos_pos_trivial) (use b n in simp_all)
    finally show "sint x mod 4294967296 = sint x + 4294967296" .
  qed
qed

lemma sint_mod_64:
  fixes x :: int64_t
  shows "(0 \<le> sint x \<longrightarrow> sint x mod 18446744073709551616 = sint x) \<and>
         (sint x < 0 \<longrightarrow> sint x mod 18446744073709551616 = sint x + 18446744073709551616)"
proof -
  have "- (2 ^ 63) \<le> sint x" "sint x < 2 ^ 63"
    using sint_ge [of x] sint_lt [of x] by simp_all
  then have b: "- 9223372036854775808 \<le> sint x" "sint x < 9223372036854775808" by simp_all
  show ?thesis
  proof (intro conjI impI)
    assume "0 \<le> sint x"
    with b show "sint x mod 18446744073709551616 = sint x" by simp
  next
    assume n: "sint x < 0"
    have "sint x mod 18446744073709551616 = (sint x + 18446744073709551616) mod 18446744073709551616" by simp
    also have "\<dots> = sint x + 18446744073709551616"
      by (rule mod_pos_pos_trivial) (use b n in simp_all)
    finally show "sint x mod 18446744073709551616 = sint x + 18446744073709551616" .
  qed
qed

section \<open>Owners, counted\<close>

lemma live_more_owners [simp]: "live hp p \<Longrightarrow> live (more_owners f hp) p"
  by (auto simp: live_def more_owners_def split: option.splits)

lemma more_owners_zero [simp]: "more_owners (\<lambda>a. 0) hp = hp"
  by (rule ext) (simp add: more_owners_def option.map_ident)

lemma retain_column_live:
  "live (columns s) p \<Longrightarrow>
   retain_column p s = Inr (s\<lparr>columns := more_owners (occurrences [p]) (columns s)\<rparr>)"
proof -
  assume "live (columns s) p"
  then obtain a c where pc: "p = Some a" "columns s a = Some c" "0 < use_count c"
    by (auto simp: live_def split: option.splits)
  have "(columns s)(a \<mapsto> c\<lparr>use_count := Suc (use_count c)\<rparr>) =
        more_owners (occurrences [Some a]) (columns s)"
    by (rule ext) (auto simp: more_owners_def occurrences_def pc option.map_ident)
  with pc show ?thesis
    by (simp add: retain_column_def sp_retain_def)
qed

lemma more_owners_more_owners:
  "more_owners f (more_owners g hp) = more_owners (\<lambda>a. g a + f a) hp"
  by (rule ext) (auto simp: more_owners_def option.map_comp comp_def add.assoc split: option.splits)

lemma retain_columns_live:
  "\<forall>p \<in> set ps. live (columns s) p \<Longrightarrow>
   retain_columns ps s = Inr (s\<lparr>columns := more_owners (occurrences ps) (columns s)\<rparr>)"
proof (induction ps arbitrary: s)
  case Nil
  then show ?case by (simp add: occurrences_def)
next
  case (Cons p ps)
  have occ: "(\<lambda>a. occurrences [p] a + occurrences ps a) = occurrences (p # ps)"
    by (rule ext) (simp add: occurrences_def)
  from Cons.prems show ?case
    by (simp add: retain_column_live Cons.IH more_owners_more_owners occ)
qed

lemma fewer_more_owners:
  "fewer_owners f (more_owners (\<lambda>a. g a + f a) hp) = more_owners g hp"
  by (rule ext) (auto simp: more_owners_def fewer_owners_def option.map_comp comp_def)

lemma release_columns_spare:
  "\<forall>a. Some a \<in> set ps \<longrightarrow> (\<exists>c. columns s a = Some c \<and> occurrences ps a < use_count c) \<Longrightarrow>
   release_columns ps s = Inr (s\<lparr>columns := fewer_owners (occurrences ps) (columns s)\<rparr>)"
proof (induction ps arbitrary: s)
  case Nil
  have "fewer_owners (occurrences []) (columns s) = columns s"
    by (rule ext) (simp add: fewer_owners_def occurrences_def option.map_ident)
  then show ?case by simp
next
  case (Cons p ps)
  show ?case
  proof (cases p)
    case None
    have occ: "occurrences (None # ps) = occurrences ps"
      by (rule ext) (simp add: occurrences_def)
    from Cons.prems None have "\<forall>a. Some a \<in> set ps \<longrightarrow>
        (\<exists>c. columns s a = Some c \<and> occurrences ps a < use_count c)"
      by (simp add: occ)
    then show ?thesis
      using None by (simp add: Cons.IH release_column_def occ)
  next
    case (Some a)
    from Cons.prems Some obtain c where c: "columns s a = Some c" "Suc (occurrences ps a) < use_count c"
      by (auto simp: occurrences_def)
    define s1 where "s1 = s\<lparr>columns := (columns s)(a \<mapsto> c\<lparr>use_count := use_count c - 1\<rparr>)\<rparr>"
    have step: "release_column p s = Inr s1"
      using c Some by (simp add: release_column_def s1_def)
    have pre: "\<forall>b. Some b \<in> set ps \<longrightarrow>
        (\<exists>d. columns s1 b = Some d \<and> occurrences ps b < use_count d)"
    proof (intro allI impI)
      fix b assume b: "Some b \<in> set ps"
      show "\<exists>d. columns s1 b = Some d \<and> occurrences ps b < use_count d"
      proof (cases "b = a")
        case True
        then show ?thesis using c by (simp add: s1_def)
      next
        case False
        then show ?thesis using Cons.prems b Some by (auto simp: s1_def occurrences_def)
      qed
    qed
    have heap: "fewer_owners (occurrences ps) (columns s1) =
                fewer_owners (occurrences (p # ps)) (columns s)"
      by (rule ext) (auto simp: fewer_owners_def s1_def Some occurrences_def c)
    have st: "s1\<lparr>columns := fewer_owners (occurrences ps) (columns s1)\<rparr> =
        s\<lparr>columns := fewer_owners (occurrences (p # ps)) (columns s)\<rparr>"
      unfolding heap by (simp add: s1_def)
    show ?thesis
      using step Cons.IH [OF pre] st by simp
  qed
qed

section \<open>Building a table\<close>

lemma garrow_column_get_raw_ok:
  "column_handle_ok s h \<Longrightarrow>
   garrow_column_get_raw h s =
     Inr (raw_of s h, s\<lparr>columns := more_owners (occurrences [raw_of s h]) (columns s)\<rparr>)"
  by (auto simp: column_handle_ok_def garrow_column_get_raw_def raw_of_def retain_column_live
      split: option.splits)

lemma push_back_columns_ok:
  "\<forall>h \<in> set cols. column_handle_ok s h \<Longrightarrow>
   push_back_columns cols acc s =
     Inr (acc @ map (raw_of s) cols,
          s\<lparr>columns := more_owners (occurrences (map (raw_of s) cols)) (columns s)\<rparr>)"
proof (induction cols arbitrary: acc s)
  case Nil
  then show ?case by (simp add: occurrences_def)
next
  case (Cons h cols)
  define s1 where "s1 = s\<lparr>columns := more_owners (occurrences [raw_of s h]) (columns s)\<rparr>"
  have ok1: "\<forall>h' \<in> set cols. column_handle_ok s1 h'"
    using Cons.prems by (auto simp: column_handle_ok_def s1_def split: option.splits)
  have raw1: "raw_of s1 = raw_of s"
    by (rule ext) (simp add: raw_of_def s1_def)
  have occ: "(\<lambda>a. occurrences [raw_of s h] a + occurrences (map (raw_of s) cols) a) =
             occurrences (map (raw_of s) (h # cols))"
    by (rule ext) (simp add: occurrences_def)
  have get: "garrow_column_get_raw h s = Inr (raw_of s h, s1)"
    using Cons.prems by (simp add: garrow_column_get_raw_ok s1_def)
  have ih: "push_back_columns cols (acc @ [raw_of s h]) s1 =
      Inr ((acc @ [raw_of s h]) @ map (raw_of s) cols,
           s1\<lparr>columns := more_owners (occurrences (map (raw_of s) cols)) (columns s1)\<rparr>)"
    using Cons.IH [OF ok1, of "acc @ [raw_of s h]"] by (simp only: raw1)
  have st: "s1\<lparr>columns := more_owners (occurrences (map (raw_of s) cols)) (columns s1)\<rparr> =
      s\<lparr>columns := more_owners (occurrences (map (raw_of s) (h # cols))) (columns s)\<rparr>"
    by (simp add: s1_def more_owners_more_owners occ)
  show ?case
    using get ih st by simp
qed

lemma occurrences_Nil [simp]: "occurrences [] = (\<lambda>a. 0)"
  by (rule ext) (simp add: occurrences_def)

lemma retain_schema_live:
  assumes "live (schemas s) p"
  shows "retain_schema p s = Inr (s\<lparr>schemas := more_owners (occurrences [p]) (schemas s)\<rparr>)"
proof -
  from assms obtain a c where pc: "p = Some a" "schemas s a = Some c" "0 < use_count c"
    by (auto simp: live_def split: option.splits)
  have "(schemas s)(a \<mapsto> c\<lparr>use_count := Suc (use_count c)\<rparr>) =
        more_owners (occurrences [Some a]) (schemas s)"
    by (rule ext) (auto simp: more_owners_def occurrences_def pc option.map_ident)
  with pc show ?thesis
    by (simp add: retain_schema_def sp_retain_def)
qed

lemma release_schema_spare:
  assumes "live (schemas s) p"
  shows "release_schema p (s\<lparr>schemas := more_owners (\<lambda>a. g a + occurrences [p] a) (schemas s)\<rparr>) =
         Inr (s\<lparr>schemas := more_owners g (schemas s)\<rparr>)"
proof -
  from assms obtain a c where pc: "p = Some a" "schemas s a = Some c" "0 < use_count c"
    by (auto simp: live_def split: option.splits)
  have "(more_owners (\<lambda>b. g b + occurrences [Some a] b) (schemas s))
          (a \<mapsto> c\<lparr>use_count := use_count c + g a\<rparr>) = more_owners g (schemas s)"
    by (rule ext) (auto simp: more_owners_def occurrences_def pc)
  with pc show ?thesis
    by (simp add: release_schema_def more_owners_def occurrences_def)
qed

lemma garrow_schema_get_raw_ok:
  "schema_handle_ok s h \<Longrightarrow>
   garrow_schema_get_raw h s =
     Inr (raw_of s h, s\<lparr>schemas := more_owners (occurrences [raw_of s h]) (schemas s)\<rparr>)"
  by (auto simp: schema_handle_ok_def garrow_schema_get_raw_def raw_of_def retain_schema_live
      split: option.splits)

lemma deref_more_owners:
  "live hp p \<Longrightarrow> deref (more_owners f hp) p = deref hp p"
  by (auto simp: live_def deref_def more_owners_def split: option.splits)

lemma live_deref: "live hp p \<Longrightarrow> \<exists>v. deref hp p = Inr v"
  by (auto simp: live_def deref_def split: option.splits)

lemma Table_ctor_ok:
  assumes "live (schemas s) q" "\<forall>p \<in> set ps. live (columns s) p"
  shows "Table_ctor name q ps s =
     Inr (\<lparr>table_name = name, table_schema = q, table_columns = ps,
           table_num_rows = first_length s ps\<rparr>,
          s\<lparr>schemas := more_owners (occurrences [q]) (schemas s),
            columns := more_owners (occurrences ps) (columns s)\<rparr>)"
proof -
  define s1 where "s1 = s\<lparr>schemas := more_owners (occurrences [q]) (schemas s)\<rparr>"
  define s2 where "s2 = s1\<lparr>columns := more_owners (occurrences ps) (columns s1)\<rparr>"
  have r1: "retain_schema q s = Inr s1"
    using assms(1) by (simp add: retain_schema_live s1_def)
  have "\<forall>p \<in> set ps. live (columns s1) p"
    using assms(2) by (simp add: s1_def)
  then have r2: "retain_columns ps s1 = Inr s2"
    unfolding s2_def by (rule retain_columns_live)
  have rows: "(case ps of
                 [] \<Rightarrow> Inr (\<lparr>table_name = name, table_schema = q, table_columns = ps,
                            table_num_rows = 0\<rparr>, s2)
               | c0 # x \<Rightarrow>
                   (case deref (columns s2) c0 of
                      Inl f \<Rightarrow> Inl f
                    | Inr col \<Rightarrow>
                        Inr (\<lparr>table_name = name, table_schema = q, table_columns = ps,
                              table_num_rows = Column_length col\<rparr>, s2))) =
             Inr (\<lparr>table_name = name, table_schema = q, table_columns = ps,
                   table_num_rows = first_length s ps\<rparr>, s2)"
  proof (cases ps)
    case Nil
    then show ?thesis by (simp add: first_length_def)
  next
    case (Cons p0 rest)
    with assms(2) have l0: "live (columns s) p0" by simp
    from live_deref [OF l0] obtain c where c: "deref (columns s) p0 = Inr c" by blast
    have "deref (columns s2) p0 = Inr c"
      using l0 c by (simp add: s2_def s1_def deref_more_owners)
    with Cons c show ?thesis by (simp add: first_length_def)
  qed
  have "Table_ctor name q ps s =
          Inr (\<lparr>table_name = name, table_schema = q, table_columns = ps,
                table_num_rows = first_length s ps\<rparr>, s2)"
    unfolding Table_ctor_def by (simp only: r1 r2 rows sum.case)
  then show ?thesis by (simp add: s2_def s1_def)
qed

lemma garrow_table_new_ok:
  assumes sch: "schema_handle_ok s schema" and cols: "\<forall>h \<in> set cols. column_handle_ok s h"
  shows "garrow_table_new name schema cols s =
     Inr (Suc (next_addr s),
          s\<lparr>tables := (tables s)(next_addr s \<mapsto>
                \<lparr>val = built_table name schema cols s, use_count = 1\<rparr>),
            columns := more_owners (occurrences (map (raw_of s) cols)) (columns s),
            schemas := more_owners (occurrences [raw_of s schema]) (schemas s),
            gobjects := (gobjects s)(Suc (next_addr s) \<mapsto>
                \<lparr>g_type = GARROW_TYPE_TABLE, priv = Some (next_addr s), in_construction = False\<rparr>),
            next_addr := Suc (Suc (next_addr s))\<rparr>)"
proof -
  define ps where "ps = map (raw_of s) cols"
  define q where "q = raw_of s schema"
  define a where "a = next_addr s"
  define t where "t = built_table name schema cols s"
  have lq: "live (schemas s) q"
    using sch by (auto simp: schema_handle_ok_def q_def raw_of_def split: option.splits)
  have lps: "\<forall>p \<in> set ps. live (columns s) p"
    using cols by (auto simp: column_handle_ok_def ps_def raw_of_def split: option.splits)

  define s1 where "s1 = s\<lparr>columns := more_owners (occurrences ps) (columns s)\<rparr>"
  have e1: "push_back_columns cols [] s = Inr (ps, s1)"
    using push_back_columns_ok [OF cols, of "[]"] by (simp add: ps_def s1_def)

  define s2 where "s2 = s1\<lparr>schemas := more_owners (occurrences [q]) (schemas s1)\<rparr>"
  have "schema_handle_ok s1 schema"
    using sch by (auto simp: schema_handle_ok_def s1_def split: option.splits)
  then have e2: "garrow_schema_get_raw schema s1 = Inr (q, s2)"
    by (simp add: garrow_schema_get_raw_ok s2_def q_def raw_of_def s1_def)

  define s3 where "s3 = s2\<lparr>schemas := more_owners (occurrences [q]) (schemas s2),
                           columns := more_owners (occurrences ps) (columns s2)\<rparr>"
  have l2: "live (schemas s2) q" "\<forall>p \<in> set ps. live (columns s2) p"
    using lq lps by (simp_all add: s2_def s1_def)
  have fl: "first_length s2 ps = first_length s ps"
    using lps by (cases ps) (simp_all add: first_length_def s2_def s1_def deref_more_owners)
  have tt: "\<lparr>table_name = name, table_schema = q, table_columns = ps,
             table_num_rows = first_length s2 ps\<rparr> = t"
    unfolding fl by (simp add: t_def built_table_def q_def ps_def)
  define s4 where "s4 = s3\<lparr>tables := (tables s3)(a \<mapsto> \<lparr>val = t, use_count = 1\<rparr>),
                           next_addr := Suc a\<rparr>"
  have n3: "next_addr s3 = a"
    by (simp add: s3_def s2_def s1_def a_def)
  have e3: "make_shared_Table name q ps s2 = Inr (Some a, s4)"
    unfolding make_shared_Table_def Table_ctor_ok [OF l2] tt
    by (simp add: s3_def [symmetric] n3 s4_def)

  define s5 where "s5 = s4\<lparr>schemas := more_owners (occurrences [q]) (schemas s)\<rparr>"
  have "s4 = (s4\<lparr>schemas := schemas s\<rparr>)\<lparr>schemas :=
          more_owners (\<lambda>b. occurrences [q] b + occurrences [q] b) (schemas (s4\<lparr>schemas := schemas s\<rparr>))\<rparr>"
    by (simp add: s4_def s3_def s2_def s1_def more_owners_more_owners)
  moreover have "release_schema q ((s4\<lparr>schemas := schemas s\<rparr>)\<lparr>schemas :=
          more_owners (\<lambda>b. occurrences [q] b + occurrences [q] b) (schemas (s4\<lparr>schemas := schemas s\<rparr>))\<rparr>) =
        Inr ((s4\<lparr>schemas := schemas s\<rparr>)\<lparr>schemas := more_owners (occurrences [q]) (schemas (s4\<lparr>schemas := schemas s\<rparr>))\<rparr>)"
    by (rule release_schema_spare) (simp add: lq)
  ultimately have e4: "release_schema q s4 = Inr s5"
    by (simp add: s5_def)

  define s6 where "s6 = s5\<lparr>tables := (tables s5)(a \<mapsto> \<lparr>val = t, use_count = Suc (Suc 0)\<rparr>),
          gobjects := (gobjects s)(Suc a \<mapsto>
             \<lparr>g_type = GARROW_TYPE_TABLE, priv = Some a, in_construction = False\<rparr>),
          next_addr := Suc (Suc a)\<rparr>"
  have t5: "tables s5 a = Some \<lparr>val = t, use_count = 1\<rparr>" "next_addr s5 = Suc a"
    "gobjects s5 = gobjects s"
    by (simp_all add: s5_def s4_def s3_def s2_def s1_def)
  have e5: "garrow_table_new_raw (AddressOf (Some a)) s5 = Inr (Suc a, s6)"
    by (simp add: garrow_table_new_raw_eq retain_table_def sp_retain_def t5 s6_def)

  define s7 where "s7 = s6\<lparr>tables := (tables s5)(a \<mapsto> \<lparr>val = t, use_count = 1\<rparr>)\<rparr>"
  have e6: "release_table (Some a) s6 = Inr s7"
    by (simp add: release_table_def s6_def s7_def)

  define s8 where "s8 = s7\<lparr>columns := more_owners (occurrences ps) (columns s)\<rparr>"
  have c7: "columns s7 = more_owners (\<lambda>b. occurrences ps b + occurrences ps b) (columns s)"
    by (simp add: s7_def s6_def s5_def s4_def s3_def s2_def s1_def more_owners_more_owners)
  have pre: "\<forall>b. Some b \<in> set ps \<longrightarrow>
      (\<exists>c. columns s7 b = Some c \<and> occurrences ps b < use_count c)"
  proof (intro allI impI)
    fix b assume "Some b \<in> set ps"
    with lps have "live (columns s) (Some b)" by blast
    then show "\<exists>c. columns s7 b = Some c \<and> occurrences ps b < use_count c"
      by (auto simp: c7 live_def more_owners_def split: option.splits)
  qed
  have "release_columns ps s7 = Inr (s7\<lparr>columns := fewer_owners (occurrences ps) (columns s7)\<rparr>)"
    by (rule release_columns_spare [OF pre])
  then have e7: "release_columns ps s7 = Inr s8"
    by (simp add: c7 fewer_more_owners s8_def)

  have "garrow_table_new name schema cols s = Inr (Suc a, s8)"
    unfolding garrow_table_new_def
    by (simp only: e1 e2 e3 e4 e5 e6 e7 sum.case prod.case)
  moreover have "s8 = s\<lparr>tables := (tables s)(a \<mapsto> \<lparr>val = t, use_count = 1\<rparr>),
            columns := more_owners (occurrences ps) (columns s),
            schemas := more_owners (occurrences [q]) (schemas s),
            gobjects := (gobjects s)(Suc a \<mapsto>
                \<lparr>g_type = GARROW_TYPE_TABLE, priv = Some a, in_construction = False\<rparr>),
            next_addr := Suc (Suc a)\<rparr>"
    by (simp add: s8_def s7_def s6_def s5_def s4_def s3_def s2_def s1_def)
  ultimately show ?thesis
    by (simp add: a_def t_def ps_def q_def)
qed

section \<open>Columns and schemas of a table\<close>

lemma release_column_spare:
  assumes "live (columns s) p"
  shows "release_column p (s\<lparr>columns := more_owners (\<lambda>a. g a + occurrences [p] a) (columns s)\<rparr>) =
         Inr (s\<lparr>columns := more_owners g (columns s)\<rparr>)"
proof -
  from assms obtain a c where pc: "p = Some a" "columns s a = Some c" "0 < use_count c"
    by (auto simp: live_def split: option.splits)
  have "(more_owners (\<lambda>b. g b + occurrences [Some a] b) (columns s))
          (a \<mapsto> c\<lparr>use_count := use_count c + g a\<rparr>) = more_owners g (columns s)"
    by (rule ext) (auto simp: more_owners_def occurrences_def pc)
  with pc show ?thesis
    by (simp add: release_column_def more_owners_def occurrences_def)
qed

lemma wraps_cell:
  "wraps s h a V \<Longrightarrow>
   \<exists>g c. gobjects s h = Some g \<and> g_type g = GARROW_TYPE_TABLE \<and> priv g = Some a \<and>
         tables s a = Some c \<and> 0 < use_count c \<and> val c = V"
  by (auto simp: wraps_def split: option.splits)

lemma garrow_table_get_column_ok:
  assumes w: "wraps s h a V" and idx: "Table_column V (int_of_guint i) = Inr p"
    and lp: "live (columns s) p"
  shows "garrow_table_get_column h i s =
     Inr (next_addr s,
          s\<lparr>columns := more_owners (occurrences [p]) (columns s),
            gobjects := (gobjects s)(next_addr s \<mapsto>
               \<lparr>g_type = GARROW_TYPE_COLUMN, priv = p, in_construction = False\<rparr>),
            next_addr := Suc (next_addr s)\<rparr>)"
proof -
  from wraps_cell [OF w] obtain g c where g: "gobjects s h = Some g" "g_type g = GARROW_TYPE_TABLE"
      "priv g = Some a" and c: "tables s a = Some c" "0 < use_count c" "val c = V"
    by blast
  define s1 where "s1 = s\<lparr>tables := (tables s)(a \<mapsto> c\<lparr>use_count := Suc (use_count c)\<rparr>)\<rparr>"
  have e1: "garrow_table_get_raw h s = Inr (Some a, s1)"
    using g c by (simp add: garrow_table_get_raw_def GARROW_TABLE_GET_PRIVATE_def
        retain_table_def sp_retain_def s1_def)
  have e2: "deref (tables s1) (Some a) = Inr V"
    using c by (simp add: deref_def s1_def)
  define s2 where "s2 = s1\<lparr>columns := more_owners (occurrences [p]) (columns s)\<rparr>"
  have e3: "retain_column p s1 = Inr s2"
    using retain_column_live [of s1 p] lp by (simp add: s1_def s2_def)
  define s3 where "s3 = s1\<lparr>columns := more_owners (\<lambda>b. occurrences [p] b + occurrences [p] b) (columns s),
        gobjects := (gobjects s)(next_addr s \<mapsto>
               \<lparr>g_type = GARROW_TYPE_COLUMN, priv = p, in_construction = False\<rparr>),
        next_addr := Suc (next_addr s)\<rparr>"
  have "live (columns s2) p"
    using lp by (simp add: s2_def)
  then have e4: "garrow_column_new_raw (AddressOf p) s2 = Inr (next_addr s, s3)"
    by (simp add: garrow_column_new_raw_def retain_column_live)
       (simp add: s2_def s3_def s1_def more_owners_more_owners)
  define s4 where "s4 = s3\<lparr>columns := more_owners (occurrences [p]) (columns s)\<rparr>"
  have "s3 = (s3\<lparr>columns := columns s\<rparr>)\<lparr>columns :=
          more_owners (\<lambda>b. occurrences [p] b + occurrences [p] b) (columns (s3\<lparr>columns := columns s\<rparr>))\<rparr>"
    by (simp add: s3_def)
  moreover have "release_column p ((s3\<lparr>columns := columns s\<rparr>)\<lparr>columns :=
          more_owners (\<lambda>b. occurrences [p] b + occurrences [p] b) (columns (s3\<lparr>columns := columns s\<rparr>))\<rparr>) =
        Inr ((s3\<lparr>columns := columns s\<rparr>)\<lparr>columns := more_owners (occurrences [p]) (columns (s3\<lparr>columns := columns s\<rparr>))\<rparr>)"
    by (rule release_column_spare) (simp add: lp)
  ultimately have e5: "release_column p s3 = Inr s4"
    by (simp add: s4_def)
  define s5 where "s5 = s4\<lparr>tables := tables s\<rparr>"
  have "(tables s)(a \<mapsto> c) = tables s"
    using c by (simp add: fun_upd_idem)
  then have e6: "release_table (Some a) s4 = Inr s5"
    using c by (simp add: release_table_def s4_def s3_def s1_def s5_def)
  have "garrow_table_get_column h i s = Inr (next_addr s, s5)"
    unfolding garrow_table_get_column_def
    by (simp only: e1 e2 idx e3 e4 e5 e6 sum.case prod.case)
  moreover have "s5 = s\<lparr>columns := more_owners (occurrences [p]) (columns s),
            gobjects := (gobjects s)(next_addr s \<mapsto>
               \<lparr>g_type = GARROW_TYPE_COLUMN, priv = p, in_construction = False\<rparr>),
            next_addr := Suc (next_addr s)\<rparr>"
    by (simp add: s5_def s4_def s3_def s1_def)
  ultimately show ?thesis by simp
qed

lemma garrow_table_get_column_fault:
  assumes w: "wraps s h a V" and idx: "Table_column V (int_of_guint i) = Inl f"
  shows "garrow_table_get_column h i s = Inl f"
proof -
  from accessor_frame [OF w] obtain s1 where "garrow_table_get_raw h s = Inr (Some a, s1)"
    "deref (tables s1) (Some a) = Inr V" by blast
  then show ?thesis
    by (simp add: garrow_table_get_column_def idx)
qed


lemma set_property_rejected:
  assumes "gobjects s h = Some g" "\<not> in_construction g"
  shows "g_object_set_property garrow_table_class h ''table'' v s =
         Inr (g_warning (CONSTRUCT_ONLY_AFTER_CONSTRUCTION ''table'') s)"
  using assms by (simp add: g_object_set_property_def find_pspec_def garrow_table_class_simps)

lemma get_property_frame:
  "g_object_get_property garrow_table_class h' name v s = Inr (r, s') \<Longrightarrow>
     r = v \<and> gobjects s' = gobjects s \<and> tables s' = tables s"
  by (auto simp: g_object_get_property_def find_pspec_def garrow_table_class_simps g_warning_def
      garrow_table_get_property_def split: option.splits if_splits)

section \<open>Indices in range\<close>




section \<open>Wrapping and teardown\<close>

lemma fewer_more_same: "fewer_owners f (more_owners f hp) = hp"
  by (rule ext) (auto simp: more_owners_def fewer_owners_def option.map_comp comp_def
      option.map_ident)

lemma garrow_table_new_raw_live:
  assumes "tables s a = Some c" "0 < use_count c"
  shows "garrow_table_new_raw (AddressOf (Some a)) s =
     Inr (next_addr s,
          s\<lparr>tables := (tables s)(a \<mapsto> c\<lparr>use_count := Suc (use_count c)\<rparr>),
            gobjects := (gobjects s)(next_addr s \<mapsto>
               \<lparr>g_type = GARROW_TYPE_TABLE, priv = Some a, in_construction = False\<rparr>),
            next_addr := Suc (next_addr s)\<rparr>)"
  using assms by (simp add: garrow_table_new_raw_eq retain_table_def sp_retain_def)

lemma garrow_table_dispose_shared:
  assumes "gobjects s h = Some g" "g_type g = GARROW_TYPE_TABLE" "priv g = Some a"
    and "tables s a = Some c" "1 < use_count c"
  shows "garrow_table_dispose h s =
     Inr (s\<lparr>gobjects := (gobjects s)(h \<mapsto> g\<lparr>priv := None\<rparr>),
           tables := (tables s)(a \<mapsto> c\<lparr>use_count := use_count c - 1\<rparr>)\<rparr>)"
  using assms
  by (simp add: garrow_table_dispose_def GARROW_TABLE_GET_PRIVATE_def store_priv_def
      release_table_def g_object_real_dispose_def)

lemma new_then_dispose:
  assumes sch: "schema_handle_ok s schema" and cols: "\<forall>h \<in> set cols. column_handle_ok s h"
  shows "\<exists>s1. garrow_table_new name schema cols s = Inr (Suc (next_addr s), s1) \<and>
           wraps s1 (Suc (next_addr s)) (next_addr s) (built_table name schema cols s) \<and>
           owners (tables s1) (next_addr s) = 1 \<and>
           garrow_table_dispose (Suc (next_addr s)) s1 =
             Inr (s\<lparr>tables := (tables s)(next_addr s := None),
                   gobjects := (gobjects s)(Suc (next_addr s) \<mapsto>
                      \<lparr>g_type = GARROW_TYPE_TABLE, priv = None, in_construction = False\<rparr>),
                   next_addr := Suc (Suc (next_addr s)),
                   destroyed := destroyed s @ [next_addr s]\<rparr>)"
proof -
  define ps where "ps = map (raw_of s) cols"
  define q where "q = raw_of s schema"
  define a where "a = next_addr s"
  define t where "t = built_table name schema cols s"
  define s1 where "s1 = s\<lparr>tables := (tables s)(a \<mapsto> \<lparr>val = t, use_count = 1\<rparr>),
            columns := more_owners (occurrences ps) (columns s),
            schemas := more_owners (occurrences [q]) (schemas s),
            gobjects := (gobjects s)(Suc a \<mapsto>
                \<lparr>g_type = GARROW_TYPE_TABLE, priv = Some a, in_construction = False\<rparr>),
            next_addr := Suc (Suc a)\<rparr>"
  have new: "garrow_table_new name schema cols s = Inr (Suc a, s1)"
    using garrow_table_new_ok [OF sch cols, of name]
    by (simp add: s1_def a_def t_def ps_def q_def)
  have w: "wraps s1 (Suc a) a t"
    by (simp add: wraps_def s1_def)
  have o: "owners (tables s1) a = 1"
    by (simp add: owners_def s1_def)
  have lq: "live (schemas s) q"
    using sch by (auto simp: schema_handle_ok_def q_def raw_of_def split: option.splits)
  have lps: "\<forall>p \<in> set ps. live (columns s) p"
    using cols by (auto simp: column_handle_ok_def ps_def raw_of_def split: option.splits)
  have tc: "table_columns t = ps" "table_schema t = q"
    by (simp_all add: t_def built_table_def ps_def q_def)

  define s2 where "s2 = s1\<lparr>gobjects := (gobjects s)(Suc a \<mapsto>
                \<lparr>g_type = GARROW_TYPE_TABLE, priv = None, in_construction = False\<rparr>),
            tables := (tables s)(a := None), destroyed := destroyed s @ [a]\<rparr>"
  have pre: "\<forall>b. Some b \<in> set ps \<longrightarrow>
      (\<exists>c. columns s2 b = Some c \<and> occurrences ps b < use_count c)"
  proof (intro allI impI)
    fix b assume "Some b \<in> set ps"
    with lps have "live (columns s) (Some b)" by blast
    then show "\<exists>c. columns s2 b = Some c \<and> occurrences ps b < use_count c"
      by (auto simp: s2_def s1_def live_def more_owners_def split: option.splits)
  qed
  define s3 where "s3 = s2\<lparr>columns := columns s\<rparr>"
  have "release_columns ps s2 = Inr (s2\<lparr>columns := fewer_owners (occurrences ps) (columns s2)\<rparr>)"
    by (rule release_columns_spare [OF pre])
  moreover have "fewer_owners (occurrences ps) (columns s2) = columns s"
    by (simp add: s2_def s1_def fewer_more_same)
  ultimately have r1: "release_columns ps s2 = Inr s3"
    by (simp add: s3_def)
  define s4 where "s4 = s3\<lparr>schemas := schemas s\<rparr>"
  have "s3 = (s3\<lparr>schemas := schemas s\<rparr>)\<lparr>schemas :=
          more_owners (\<lambda>b. 0 + occurrences [q] b) (schemas (s3\<lparr>schemas := schemas s\<rparr>))\<rparr>"
    by (simp add: s3_def s2_def s1_def)
  moreover have "release_schema q ((s3\<lparr>schemas := schemas s\<rparr>)\<lparr>schemas :=
          more_owners (\<lambda>b. 0 + occurrences [q] b) (schemas (s3\<lparr>schemas := schemas s\<rparr>))\<rparr>) =
        Inr ((s3\<lparr>schemas := schemas s\<rparr>)\<lparr>schemas := more_owners (\<lambda>b. 0) (schemas (s3\<lparr>schemas := schemas s\<rparr>))\<rparr>)"
    by (rule release_schema_spare) (simp add: lq)
  ultimately have r2: "release_schema q s3 = Inr s4"
    by (simp add: s4_def)
  have rel: "release_table (Some a) (store_priv (Suc a) None s1) = Inr s4"
  proof -
    have st: "store_priv (Suc a) None s1 = s1\<lparr>gobjects := (gobjects s)(Suc a \<mapsto>
                \<lparr>g_type = GARROW_TYPE_TABLE, priv = None, in_construction = False\<rparr>)\<rparr>"
      by (simp add: store_priv_def s1_def)
    have s2': "(s1\<lparr>gobjects := (gobjects s)(Suc a \<mapsto>
                \<lparr>g_type = GARROW_TYPE_TABLE, priv = None, in_construction = False\<rparr>)\<rparr>)
               \<lparr>tables := (tables s1)(a := None), destroyed := destroyed s1 @ [a]\<rparr> = s2"
      by (simp add: s2_def s1_def)
    show ?thesis
      unfolding st release_table_def
      using r1 r2 by (simp add: s1_def s2_def s3_def s4_def tc)
  qed
  have disp: "garrow_table_dispose (Suc a) s1 = Inr s4"
    unfolding garrow_table_dispose_def GARROW_TABLE_GET_PRIVATE_def g_object_real_dispose_def
    using rel by (simp add: s1_def)
  have "s4 = s\<lparr>tables := (tables s)(a := None),
                   gobjects := (gobjects s)(Suc a \<mapsto>
                      \<lparr>g_type = GARROW_TYPE_TABLE, priv = None, in_construction = False\<rparr>),
                   next_addr := Suc (Suc a),
                   destroyed := destroyed s @ [a]\<rparr>"
    by (simp add: s4_def s3_def s2_def s1_def)
  with new w o disp show ?thesis
    by (auto simp: a_def t_def)
qed

lemma wrap_twice:
  assumes c: "tables s a = Some c" "0 < use_count c"
  shows "\<exists>s1 s2 s3 s4.
     garrow_table_new_raw (AddressOf (Some a)) s = Inr (next_addr s, s1) \<and>
     owners (tables s1) a = owners (tables s) a + 1 \<and>
     garrow_table_new_raw (AddressOf (Some a)) s1 = Inr (Suc (next_addr s), s2) \<and>
     owners (tables s2) a = owners (tables s) a + 2 \<and>
     garrow_table_dispose (next_addr s) s2 = Inr s3 \<and>
     owners (tables s3) a = owners (tables s) a + 1 \<and>
     garrow_table_dispose (Suc (next_addr s)) s3 = Inr s4 \<and>
     owners (tables s4) a = owners (tables s) a \<and>
     tables s4 = tables s \<and> columns s4 = columns s \<and> schemas s4 = schemas s \<and>
     destroyed s4 = destroyed s"
proof -
  define n where "n = next_addr s"
  define h1 where "h1 = \<lparr>g_type = GARROW_TYPE_TABLE, priv = Some a, in_construction = False\<rparr>"
  define s1 where "s1 = s\<lparr>tables := (tables s)(a \<mapsto> c\<lparr>use_count := Suc (use_count c)\<rparr>),
            gobjects := (gobjects s)(n \<mapsto> h1), next_addr := Suc n\<rparr>"
  define s2 where "s2 = s\<lparr>tables := (tables s)(a \<mapsto> c\<lparr>use_count := Suc (Suc (use_count c))\<rparr>),
            gobjects := (gobjects s)(n \<mapsto> h1, Suc n \<mapsto> h1), next_addr := Suc (Suc n)\<rparr>"
  define s3 where "s3 = s\<lparr>tables := (tables s)(a \<mapsto> c\<lparr>use_count := Suc (use_count c)\<rparr>),
            gobjects := (gobjects s)(n \<mapsto> h1\<lparr>priv := None\<rparr>, Suc n \<mapsto> h1),
            next_addr := Suc (Suc n)\<rparr>"
  define s4 where "s4 = s\<lparr>tables := (tables s)(a \<mapsto> c),
            gobjects := (gobjects s)(n \<mapsto> h1\<lparr>priv := None\<rparr>, Suc n \<mapsto> h1\<lparr>priv := None\<rparr>),
            next_addr := Suc (Suc n)\<rparr>"
  have e1: "garrow_table_new_raw (AddressOf (Some a)) s = Inr (n, s1)"
    using garrow_table_new_raw_live [OF c] by (simp add: s1_def n_def h1_def)
  have e2: "garrow_table_new_raw (AddressOf (Some a)) s1 = Inr (Suc n, s2)"
    using garrow_table_new_raw_live [of s1 a "c\<lparr>use_count := Suc (use_count c)\<rparr>"]
    by (simp add: s1_def s2_def h1_def)
  have e3: "garrow_table_dispose n s2 = Inr s3"
    using garrow_table_dispose_shared [of s2 n h1 a "c\<lparr>use_count := Suc (Suc (use_count c))\<rparr>"]
    by (simp add: s2_def s3_def h1_def fun_upd_twist)
  have e4: "garrow_table_dispose (Suc n) s3 = Inr s4"
    using garrow_table_dispose_shared [of s3 "Suc n" h1 a "c\<lparr>use_count := Suc (use_count c)\<rparr>"] c
    by (simp add: s3_def s4_def h1_def)
  have t4: "tables s4 = tables s"
    using c by (simp add: s4_def fun_upd_idem)
  have o: "owners (tables s1) a = owners (tables s) a + 1"
    "owners (tables s2) a = owners (tables s) a + 2"
    "owners (tables s3) a = owners (tables s) a + 1"
    using c by (simp_all add: owners_def s1_def s2_def s3_def)
  have r: "columns s4 = columns s" "schemas s4 = schemas s" "destroyed s4 = destroyed s"
    by (simp_all add: s4_def)
  from e1 e2 e3 e4 t4 o r show ?thesis
    unfolding n_def by (metis (no_types))
qed

lemma garrow_column_get_name_ok:
  assumes "column_handle_ok s hc" "raw_of s hc = Some q"
  shows "garrow_column_get_name hc s = Inr (ColumnNameBuffer q, s)"
proof -
  have l: "live (columns s) (Some q)"
    using assms by (auto simp: column_handle_ok_def raw_of_def split: option.splits)
  define s1 where "s1 = s\<lparr>columns := more_owners (occurrences [Some q]) (columns s)\<rparr>"
  have e1: "garrow_column_get_raw hc s = Inr (Some q, s1)"
    using garrow_column_get_raw_ok [OF assms(1)] assms(2) by (simp add: s1_def)
  from live_deref [OF l] obtain C where "deref (columns s) (Some q) = Inr C" by blast
  then have e2: "deref (columns s1) (Some q) = Inr C"
    using l by (simp add: s1_def deref_more_owners)
  have "release_column (Some q) (s\<lparr>columns := more_owners (\<lambda>b. 0 + occurrences [Some q] b) (columns s)\<rparr>) =
        Inr (s\<lparr>columns := more_owners (\<lambda>b. 0) (columns s)\<rparr>)"
    by (rule release_column_spare) (rule l)
  then have e3: "release_column (Some q) s1 = Inr s"
    by (simp add: s1_def)
  show ?thesis
    unfolding garrow_column_get_name_def
    by (simp only: e1 e2 e3 sum.case prod.case option.sel)
qed

section \<open>What a call that returns has done\<close>

lemma retain_table_effect:
  "retain_table p s = Inr s' \<Longrightarrow>
     gobjects s' = gobjects s \<and> next_addr s' = next_addr s \<and>
     (p = None \<and> s' = s \<or>
      (\<exists>a c. p = Some a \<and> tables s a = Some c \<and> 0 < use_count c \<and>
             s' = s\<lparr>tables := (tables s)(a \<mapsto> c\<lparr>use_count := Suc (use_count c)\<rparr>)\<rparr>))"
  by (auto simp: retain_table_def sp_retain_def split: option.splits if_splits)

lemma release_table_shared:
  assumes "tables s a = Some c" "1 < use_count c"
  shows "release_table (Some a) s = Inr (s\<lparr>tables := (tables s)(a \<mapsto> c\<lparr>use_count := use_count c - 1\<rparr>)\<rparr>)"
  using assms by (simp add: release_table_def)

lemma release_table_effect:
  assumes "release_table (Some a) s = Inr s'"
  shows "gobjects s' = gobjects s \<and> next_addr s' = next_addr s \<and>
     (\<exists>c. tables s a = Some c \<and> 0 < use_count c \<and>
          tables s' = (if use_count c = 1 then (tables s)(a := None)
                       else (tables s)(a \<mapsto> c\<lparr>use_count := use_count c - 1\<rparr>)))"
proof -
  from assms obtain c where c: "tables s a = Some c" "0 < use_count c"
    by (auto simp: release_table_def split: option.splits if_splits)
  show ?thesis
  proof (cases "use_count c = 1")
    case True
    define s0 where "s0 = s\<lparr>tables := (tables s)(a := None), destroyed := destroyed s @ [a]\<rparr>"
    from assms c True obtain s1 where
      r1: "release_columns (table_columns (val c)) s0 = Inr s1"
      and r2: "release_schema (table_schema (val c)) s1 = Inr s'"
      by (auto simp: release_table_def s0_def split: sum.splits)
    from release_columns_frame [OF r1] release_schema_frame [OF r2]
    have "gobjects s' = gobjects s0" "next_addr s' = next_addr s0" "tables s' = tables s0"
      by simp_all
    with c True show ?thesis by (simp add: s0_def)
  next
    case False
    with assms c have "s' = s\<lparr>tables := (tables s)(a \<mapsto> c\<lparr>use_count := use_count c - 1\<rparr>)\<rparr>"
      by (simp add: release_table_def)
    with c False show ?thesis by simp
  qed
qed

lemma get_raw_effect:
  "garrow_table_get_raw h s = Inr (p, s1) \<Longrightarrow>
     gobjects s1 = gobjects s \<and> next_addr s1 = next_addr s \<and> columns s1 = columns s \<and>
     schemas s1 = schemas s \<and> destroyed s1 = destroyed s \<and> warnings s1 = warnings s \<and>
     (p = None \<and> s1 = s \<or>
      (\<exists>a c. p = Some a \<and> tables s a = Some c \<and> 0 < use_count c \<and>
             s1 = s\<lparr>tables := (tables s)(a \<mapsto> c\<lparr>use_count := Suc (use_count c)\<rparr>)\<rparr>))"
  by (auto simp: garrow_table_get_raw_def split: sum.splits dest!: retain_table_effect)

lemma borrow_and_return:
  assumes "garrow_table_get_raw h s = Inr (p, s1)" "deref (tables s1) p = Inr V"
    and "release_table p s2 = Inr s'" "tables s2 = tables s1"
  shows "tables s' = tables s \<and> gobjects s' = gobjects s2 \<and> next_addr s' = next_addr s2"
proof -
  from assms(2) obtain a where p: "p = Some a"
    by (cases p) (simp_all add: deref_def)
  from get_raw_effect [OF assms(1)] p obtain c where
    c: "tables s a = Some c" "0 < use_count c"
    and s1: "s1 = s\<lparr>tables := (tables s)(a \<mapsto> c\<lparr>use_count := Suc (use_count c)\<rparr>)\<rparr>"
    by auto
  have t2: "tables s2 a = Some (c\<lparr>use_count := Suc (use_count c)\<rparr>)"
    using assms(4) s1 by simp
  have "release_table (Some a) s2 =
        Inr (s2\<lparr>tables := (tables s2)(a \<mapsto> c\<lparr>use_count := Suc (use_count c)\<rparr>\<lparr>use_count := use_count (c\<lparr>use_count := Suc (use_count c)\<rparr>) - 1\<rparr>)\<rparr>)"
    using c by (intro release_table_shared [OF t2]) simp
  with assms(3) p have "s' = s2\<lparr>tables := (tables s2)(a \<mapsto> c)\<rparr>"
    by simp
  then show ?thesis
    using assms(4) s1 c by (simp add: fun_upd_idem)
qed

lemma get_name_returns:
  assumes "garrow_table_get_name h s = Inr (r, s')"
  shows "tables s' = tables s \<and> gobjects s' = gobjects s \<and> next_addr s' = next_addr s"
proof -
  from assms obtain p s1 V where g: "garrow_table_get_raw h s = Inr (p, s1)"
    and d: "deref (tables s1) p = Inr V" and r: "release_table p s1 = Inr s'"
    by (auto simp: garrow_table_get_name_def split: sum.splits prod.splits)
  from borrow_and_return [OF g d r] get_raw_effect [OF g] show ?thesis by simp
qed

lemma get_n_columns_returns:
  assumes "garrow_table_get_n_columns h s = Inr (r, s')"
  shows "tables s' = tables s \<and> gobjects s' = gobjects s \<and> next_addr s' = next_addr s"
proof -
  from assms obtain p s1 V where g: "garrow_table_get_raw h s = Inr (p, s1)"
    and d: "deref (tables s1) p = Inr V" and r: "release_table p s1 = Inr s'"
    by (auto simp: garrow_table_get_n_columns_def split: sum.splits prod.splits)
  from borrow_and_return [OF g d r] get_raw_effect [OF g] show ?thesis by simp
qed

lemma get_n_rows_returns:
  assumes "garrow_table_get_n_rows h s = Inr (r, s')"
  shows "tables s' = tables s \<and> gobjects s' = gobjects s \<and> next_addr s' = next_addr s"
proof -
  from assms obtain p s1 V where g: "garrow_table_get_raw h s = Inr (p, s1)"
    and d: "deref (tables s1) p = Inr V" and r: "release_table p s1 = Inr s'"
    by (auto simp: garrow_table_get_n_rows_def split: sum.splits prod.splits)
  from borrow_and_return [OF g d r] get_raw_effect [OF g] show ?thesis by simp
qed

lemma retain_column_tables:
  "retain_column p s = Inr s' \<Longrightarrow> tables s' = tables s \<and> gobjects s' = gobjects s \<and> next_addr s' = next_addr s"
  by (auto simp: retain_column_def sp_retain_def split: option.splits if_splits)

lemma retain_schema_tables:
  "retain_schema p s = Inr s' \<Longrightarrow> tables s' = tables s \<and> gobjects s' = gobjects s \<and> next_addr s' = next_addr s"
  by (auto simp: retain_schema_def sp_retain_def split: option.splits if_splits)

lemma garrow_column_new_raw_effect:
  "garrow_column_new_raw v s = Inr (h, s') \<Longrightarrow>
     tables s' = tables s \<and> next_addr s' = Suc (next_addr s) \<and>
     (\<exists>p. gobjects s' = (gobjects s)(next_addr s \<mapsto>
            \<lparr>g_type = GARROW_TYPE_COLUMN, priv = p, in_construction = False\<rparr>))"
  by (auto simp: garrow_column_new_raw_def split: gpointer.splits sum.splits
      dest!: retain_column_tables)

lemma garrow_schema_new_raw_effect:
  "garrow_schema_new_raw v s = Inr (h, s') \<Longrightarrow>
     tables s' = tables s \<and> next_addr s' = Suc (next_addr s) \<and>
     (\<exists>p. gobjects s' = (gobjects s)(next_addr s \<mapsto>
            \<lparr>g_type = GARROW_TYPE_SCHEMA, priv = p, in_construction = False\<rparr>))"
  by (auto simp: garrow_schema_new_raw_def split: gpointer.splits sum.splits
      dest!: retain_schema_tables)

lemma get_schema_returns:
  assumes "garrow_table_get_schema h s = Inr (r, s')"
  shows "tables s' = tables s \<and> next_addr s' = Suc (next_addr s) \<and>
     (\<exists>p. gobjects s' = (gobjects s)(next_addr s \<mapsto>
            \<lparr>g_type = GARROW_TYPE_SCHEMA, priv = p, in_construction = False\<rparr>))"
proof -
  from assms obtain p s1 V s2 s3 s4 where g: "garrow_table_get_raw h s = Inr (p, s1)"
    and d: "deref (tables s1) p = Inr V"
    and r2: "retain_schema (Table_schema V) s1 = Inr s2"
    and n: "garrow_schema_new_raw (AddressOf (Table_schema V)) s2 = Inr (r, s3)"
    and r4: "release_schema (Table_schema V) s3 = Inr s4"
    and r: "release_table p s4 = Inr s'"
    by (auto simp: garrow_table_get_schema_def split: sum.splits prod.splits)
  have t4: "tables s4 = tables s1"
    using retain_schema_tables [OF r2] garrow_schema_new_raw_effect [OF n]
      release_schema_frame [OF r4] by simp
  from borrow_and_return [OF g d r t4] get_raw_effect [OF g] retain_schema_tables [OF r2]
    garrow_schema_new_raw_effect [OF n] release_schema_frame [OF r4]
  show ?thesis by auto
qed

lemma get_column_returns:
  assumes "garrow_table_get_column h i s = Inr (r, s')"
  shows "tables s' = tables s \<and> next_addr s' = Suc (next_addr s) \<and>
     (\<exists>p. gobjects s' = (gobjects s)(next_addr s \<mapsto>
            \<lparr>g_type = GARROW_TYPE_COLUMN, priv = p, in_construction = False\<rparr>))"
proof -
  from assms obtain p s1 V q s2 s3 s4 where g: "garrow_table_get_raw h s = Inr (p, s1)"
    and d: "deref (tables s1) p = Inr V"
    and r2: "retain_column q s1 = Inr s2"
    and n: "garrow_column_new_raw (AddressOf q) s2 = Inr (r, s3)"
    and r4: "release_column q s3 = Inr s4"
    and r: "release_table p s4 = Inr s'"
    by (auto simp: garrow_table_get_column_def split: sum.splits prod.splits)
  have t4: "tables s4 = tables s1"
    using retain_column_tables [OF r2] garrow_column_new_raw_effect [OF n]
      release_column_frame [OF r4] by simp
  from borrow_and_return [OF g d r t4] get_raw_effect [OF g] retain_column_tables [OF r2]
    garrow_column_new_raw_effect [OF n] release_column_frame [OF r4]
  show ?thesis by auto
qed

lemma dispose_returns:
  assumes "garrow_table_dispose h s = Inr s'"
  shows "\<exists>g. gobjects s h = Some g \<and> g_type g = GARROW_TYPE_TABLE \<and>
     gobjects s' = (gobjects s)(h \<mapsto> g\<lparr>priv := None\<rparr>) \<and> next_addr s' = next_addr s \<and>
     (priv g = None \<and> tables s' = tables s \<or>
      (\<exists>a c. priv g = Some a \<and> tables s a = Some c \<and> 0 < use_count c \<and>
         tables s' = (if use_count c = 1 then (tables s)(a := None)
                      else (tables s)(a \<mapsto> c\<lparr>use_count := use_count c - 1\<rparr>))))"
proof -
  from assms obtain g where g: "gobjects s h = Some g" "g_type g = GARROW_TYPE_TABLE"
    and rel: "release_table (priv g) (store_priv h None s) = Inr s'"
    by (auto simp: garrow_table_dispose_def GARROW_TABLE_GET_PRIVATE_def g_object_real_dispose_def
        split: option.splits if_splits sum.splits)
  have st: "gobjects (store_priv h None s) = (gobjects s)(h \<mapsto> g\<lparr>priv := None\<rparr>)"
    "next_addr (store_priv h None s) = next_addr s" "tables (store_priv h None s) = tables s"
    using g by (simp_all add: store_priv_def)
  show ?thesis
  proof (cases "priv g")
    case None
    with rel have "s' = store_priv h None s" by (simp add: release_table_def)
    with g st None show ?thesis by simp
  next
    case (Some a)
    from release_table_effect [OF rel [unfolded Some]] st g Some show ?thesis
      by auto
  qed
qed

lemma wrap_returns:
  assumes "garrow_table_new_raw v s = Inr (h, s')"
  shows "h = next_addr s \<and> next_addr s' = Suc (next_addr s) \<and>
     (\<exists>q. v = AddressOf q \<and> gobjects s' = (gobjects s)(next_addr s \<mapsto>
              \<lparr>g_type = GARROW_TYPE_TABLE, priv = q, in_construction = False\<rparr>) \<and>
          (q = None \<and> tables s' = tables s \<or>
           (\<exists>a c. q = Some a \<and> tables s a = Some c \<and> 0 < use_count c \<and>
              tables s' = (tables s)(a \<mapsto> c\<lparr>use_count := Suc (use_count c)\<rparr>))))"
proof (cases v)
  case NULL
  with assms show ?thesis by (simp add: garrow_table_new_raw_eq)
next
  case (AddressOf q)
  show ?thesis
  proof (cases "retain_table q s")
    case (Inl f)
    with assms AddressOf show ?thesis by (simp add: garrow_table_new_raw_eq)
  next
    case (Inr s1)
    with assms AddressOf have h: "h = next_addr s"
      and s': "s' = s1\<lparr>gobjects := (gobjects s)(next_addr s \<mapsto>
                          \<lparr>g_type = GARROW_TYPE_TABLE, priv = q, in_construction = False\<rparr>),
                       next_addr := Suc (next_addr s)\<rparr>"
      by (auto simp: garrow_table_new_raw_eq)
    have g: "gobjects s' = (gobjects s)(next_addr s \<mapsto>
              \<lparr>g_type = GARROW_TYPE_TABLE, priv = q, in_construction = False\<rparr>)"
      and n: "next_addr s' = Suc (next_addr s)" and t: "tables s' = tables s1"
      by (simp_all add: s')
    from retain_table_effect [OF Inr]
    have "q = None \<and> tables s1 = tables s \<or>
           (\<exists>a c. q = Some a \<and> tables s a = Some c \<and> 0 < use_count c \<and>
              tables s1 = (tables s)(a \<mapsto> c\<lparr>use_count := Suc (use_count c)\<rparr>))"
      by auto
    with h g n t AddressOf show ?thesis by auto
  qed
qed

lemma garrow_column_get_raw_frame:
  "garrow_column_get_raw h s = Inr (p, s') \<Longrightarrow>
     tables s' = tables s \<and> gobjects s' = gobjects s \<and> next_addr s' = next_addr s"
  by (auto simp: garrow_column_get_raw_def split: option.splits if_splits sum.splits
      dest!: retain_column_tables)

lemma garrow_schema_get_raw_frame:
  "garrow_schema_get_raw h s = Inr (p, s') \<Longrightarrow>
     tables s' = tables s \<and> gobjects s' = gobjects s \<and> next_addr s' = next_addr s"
  by (auto simp: garrow_schema_get_raw_def split: option.splits if_splits sum.splits
      dest!: retain_schema_tables)

lemma push_back_columns_frame:
  "push_back_columns cols acc s = Inr (ps, s') \<Longrightarrow>
     tables s' = tables s \<and> gobjects s' = gobjects s \<and> next_addr s' = next_addr s"
proof (induction cols arbitrary: acc s)
  case Nil
  then show ?case by simp
next
  case (Cons h cols)
  from Cons.prems obtain p s1 where g: "garrow_column_get_raw h s = Inr (p, s1)"
    and r: "push_back_columns cols (acc @ [p]) s1 = Inr (ps, s')"
    by (auto split: sum.splits)
  from Cons.IH [OF r] garrow_column_get_raw_frame [OF g] show ?case by simp
qed

lemma retain_columns_frame:
  "retain_columns ps s = Inr s' \<Longrightarrow>
     tables s' = tables s \<and> gobjects s' = gobjects s \<and> next_addr s' = next_addr s"
proof (induction ps arbitrary: s)
  case Nil
  then show ?case by simp
next
  case (Cons p ps)
  from Cons.prems obtain s1 where g: "retain_column p s = Inr s1"
    and r: "retain_columns ps s1 = Inr s'"
    by (auto split: sum.splits)
  from Cons.IH [OF r] retain_column_tables [OF g] show ?case by simp
qed

lemma Table_ctor_frame:
  assumes "Table_ctor name q ps s = Inr (t, s')"
  shows "tables s' = tables s \<and> gobjects s' = gobjects s \<and> next_addr s' = next_addr s"
proof -
  from assms obtain s1 where r1: "retain_schema q s = Inr s1"
    and r2: "retain_columns ps s1 = Inr s'"
    by (auto simp: Table_ctor_def split: sum.splits list.splits)
  from retain_schema_tables [OF r1] retain_columns_frame [OF r2] show ?thesis by simp
qed

lemma make_shared_Table_effect:
  assumes "make_shared_Table name q ps s = Inr (p, s')"
  shows "p = Some (next_addr s) \<and> gobjects s' = gobjects s \<and> next_addr s' = Suc (next_addr s) \<and>
     (\<exists>t. tables s' = (tables s)(next_addr s \<mapsto> \<lparr>val = t, use_count = 1\<rparr>))"
proof -
  from assms obtain t s1 where c: "Table_ctor name q ps s = Inr (t, s1)"
    and s': "s' = s1\<lparr>tables := (tables s1)(next_addr s1 \<mapsto> \<lparr>val = t, use_count = 1\<rparr>),
                  next_addr := Suc (next_addr s1)\<rparr>"
    and p: "p = Some (next_addr s1)"
    by (auto simp: make_shared_Table_def split: sum.splits prod.splits)
  from Table_ctor_frame [OF c] s' p show ?thesis by auto
qed

lemma construct_returns:
  assumes "garrow_table_new name schema cols s = Inr (h, s')"
  shows "h = Suc (next_addr s) \<and> next_addr s' = Suc (Suc (next_addr s)) \<and>
     gobjects s' = (gobjects s)(Suc (next_addr s) \<mapsto>
        \<lparr>g_type = GARROW_TYPE_TABLE, priv = Some (next_addr s), in_construction = False\<rparr>) \<and>
     (\<exists>t. tables s' = (tables s)(next_addr s \<mapsto> \<lparr>val = t, use_count = 1\<rparr>))"
proof -
  from assms obtain ps s1 q s2 p s3 s4 s5 s6 where
    e1: "push_back_columns cols [] s = Inr (ps, s1)"
    and e2: "garrow_schema_get_raw schema s1 = Inr (q, s2)"
    and e3: "make_shared_Table name q ps s2 = Inr (p, s3)"
    and e4: "release_schema q s3 = Inr s4"
    and e5: "garrow_table_new_raw (AddressOf p) s4 = Inr (h, s5)"
    and e6: "release_table p s5 = Inr s6"
    and e7: "release_columns ps s6 = Inr s'"
    by (auto simp: garrow_table_new_def split: sum.splits prod.splits)
  define n where "n = next_addr s"
  from push_back_columns_frame [OF e1] garrow_schema_get_raw_frame [OF e2]
  have f2: "tables s2 = tables s" "gobjects s2 = gobjects s" "next_addr s2 = n"
    by (simp_all add: n_def)
  from make_shared_Table_effect [OF e3] f2 obtain t where
    p: "p = Some n" and f3: "gobjects s3 = gobjects s" "next_addr s3 = Suc n"
      "tables s3 = (tables s)(n \<mapsto> \<lparr>val = t, use_count = 1\<rparr>)"
    by auto
  from release_schema_frame [OF e4] f3
  have f4: "gobjects s4 = gobjects s" "next_addr s4 = Suc n"
      "tables s4 = (tables s)(n \<mapsto> \<lparr>val = t, use_count = 1\<rparr>)"
    by simp_all
  from wrap_returns [OF e5 [unfolded p]] f4
  have f5: "h = Suc n" "next_addr s5 = Suc (Suc n)"
    "gobjects s5 = (gobjects s)(Suc n \<mapsto>
        \<lparr>g_type = GARROW_TYPE_TABLE, priv = Some n, in_construction = False\<rparr>)"
    "tables s5 = (tables s)(n \<mapsto> \<lparr>val = t, use_count = Suc 1\<rparr>)"
    by auto
  from release_table_effect [OF e6 [unfolded p]] f5
  have f6: "next_addr s6 = Suc (Suc n)"
    "gobjects s6 = (gobjects s)(Suc n \<mapsto>
        \<lparr>g_type = GARROW_TYPE_TABLE, priv = Some n, in_construction = False\<rparr>)"
    "tables s6 = (tables s)(n \<mapsto> \<lparr>val = t, use_count = 1\<rparr>)"
    by auto
  from release_columns_frame [OF e7] f6 f5(1) show ?thesis
    unfolding n_def by auto
qed

section \<open>Well-formedness is kept\<close>

lemma finite_holders: "finite (dom (gobjects s)) \<Longrightarrow> finite (holders s a)"
  by (rule finite_subset [of _ "dom (gobjects s)"]) (auto simp: holders_def)

lemma holders_cong: "gobjects s' = gobjects s \<Longrightarrow> holders s' = holders s"
  by (rule ext) (simp add: holders_def)

lemma holders_upd:
  assumes "gobjects s' = (gobjects s)(n \<mapsto> g)"
  shows "holders s' a =
     (if g_type g = GARROW_TYPE_TABLE \<and> priv g = Some a then insert n (holders s a)
      else holders s a - {n})"
  using assms by (auto simp: holders_def)

lemma holders_below:
  assumes "well_formed s" "h \<in> holders s a"
  shows "a < next_addr s \<and> h < next_addr s"
proof -
  from assms(2) have ne: "holders s a \<noteq> {}" by auto
  from assms(1) have fin: "finite (holders s a)"
    by (simp add: well_formed_def finite_holders)
  from ne fin have "0 < card (holders s a)" by (simp add: card_gt_0_iff)
  with assms(1) have "0 < owners (tables s) a"
    unfolding well_formed_def by (meson less_le_trans)
  then obtain c where "tables s a = Some c"
    by (auto simp: owners_def split: option.splits)
  with assms show ?thesis
    by (auto simp: well_formed_def holders_def)
qed

lemma wf_same:
  assumes "well_formed s" "gobjects s' = gobjects s" "tables s' = tables s"
    "next_addr s' = next_addr s"
  shows "well_formed s'"
  using assms(1) unfolding well_formed_def holders_cong [OF assms(2)] assms(2,3,4) .

lemma wraps_same:
  assumes "wraps s h a V" "gobjects s' h = gobjects s h" "tables s' a = tables s a"
  shows "wraps s' h a V"
  using assms by (auto simp: wraps_def split: option.splits)

lemma wf_new_other:
  assumes wf: "well_formed s" and g: "gobjects s' = (gobjects s)(next_addr s \<mapsto> g)"
    and ty: "g_type g \<noteq> GARROW_TYPE_TABLE" "\<not> in_construction g"
    and t: "tables s' = tables s" and n: "next_addr s' = Suc (next_addr s)"
  shows "well_formed s'"
  unfolding well_formed_def
proof (intro conjI allI impI)
  show "finite (dom (gobjects s'))"
    using wf by (simp add: g well_formed_def)
next
  fix h g' assume "gobjects s' h = Some g'"
  then show "\<not> in_construction g'" "h < next_addr s'"
    using wf ty by (auto simp: g n well_formed_def less_Suc_eq split: if_splits)
next
  fix a c assume "tables s' a = Some c"
  then show "a < next_addr s'"
    using wf by (auto simp: t n well_formed_def less_Suc_eq)
next
  fix a
  have "holders s' a = holders s a - {next_addr s}"
    using holders_upd [OF g, of a] ty by simp
  moreover have "card (holders s a - {next_addr s}) \<le> card (holders s a)"
    using wf by (intro card_mono) (auto simp: well_formed_def finite_holders)
  ultimately show "card (holders s' a) \<le> owners (tables s') a"
    using wf by (simp add: t well_formed_def) (meson le_trans)
qed

lemma wf_wrap:
  assumes wf: "well_formed s"
    and g: "gobjects s' = (gobjects s)(next_addr s \<mapsto>
              \<lparr>g_type = GARROW_TYPE_TABLE, priv = q, in_construction = False\<rparr>)"
    and t: "q = None \<and> tables s' = tables s \<or>
           (\<exists>a c. q = Some a \<and> tables s a = Some c \<and> 0 < use_count c \<and>
              tables s' = (tables s)(a \<mapsto> c\<lparr>use_count := Suc (use_count c)\<rparr>))"
    and n: "next_addr s' = Suc (next_addr s)"
  shows "well_formed s'"
  unfolding well_formed_def
proof (intro conjI allI impI)
  show "finite (dom (gobjects s'))"
    using wf by (simp add: g well_formed_def)
next
  fix h g' assume "gobjects s' h = Some g'"
  then show "\<not> in_construction g'" "h < next_addr s'"
    using wf by (auto simp: g n well_formed_def less_Suc_eq split: if_splits)
next
  fix a c assume "tables s' a = Some c"
  then show "a < next_addr s'"
    using wf t by (auto simp: n well_formed_def less_Suc_eq split: if_splits)
next
  fix a
  have fin: "finite (holders s a)"
    using wf by (simp add: well_formed_def finite_holders)
  have old: "card (holders s a) \<le> owners (tables s) a"
    using wf by (simp add: well_formed_def)
  show "card (holders s' a) \<le> owners (tables s') a"
  proof (cases "q = Some a")
    case True
    with t obtain c where c: "tables s a = Some c"
      "tables s' = (tables s)(a \<mapsto> c\<lparr>use_count := Suc (use_count c)\<rparr>)"
      by auto
    have "holders s' a = insert (next_addr s) (holders s a)"
      using holders_upd [OF g, of a] True by simp
    then have "card (holders s' a) \<le> Suc (card (holders s a))"
      using fin by (simp add: card_insert_if)
    moreover have "owners (tables s') a = Suc (owners (tables s) a)"
      using c by (simp add: owners_def)
    ultimately show ?thesis using old by simp
  next
    case False
    have "holders s' a = holders s a - {next_addr s}"
      using holders_upd [OF g, of a] False by simp
    moreover have "card (holders s a - {next_addr s}) \<le> card (holders s a)"
      using fin by (intro card_mono) auto
    moreover have "tables s' a = tables s a"
      using t False by (auto split: if_splits)
    then have "owners (tables s') a = owners (tables s) a"
      by (simp add: owners_def)
    ultimately show ?thesis using old by simp
  qed
qed

lemma wf_dispose:
  assumes wf: "well_formed s" and h: "gobjects s h = Some g" "g_type g = GARROW_TYPE_TABLE"
    and g: "gobjects s' = (gobjects s)(h \<mapsto> g\<lparr>priv := None\<rparr>)"
    and n: "next_addr s' = next_addr s"
    and t: "priv g = None \<and> tables s' = tables s \<or>
      (\<exists>a c. priv g = Some a \<and> tables s a = Some c \<and> 0 < use_count c \<and>
         tables s' = (if use_count c = 1 then (tables s)(a := None)
                      else (tables s)(a \<mapsto> c\<lparr>use_count := use_count c - 1\<rparr>)))"
  shows "well_formed s'"
  unfolding well_formed_def
proof (intro conjI allI impI)
  have "dom (gobjects s') = dom (gobjects s)"
    using h by (auto simp: g)
  then show "finite (dom (gobjects s'))"
    using wf by (simp add: well_formed_def)
next
  fix h' g' assume "gobjects s' h' = Some g'"
  then show "\<not> in_construction g'" "h' < next_addr s'"
    using wf h by (auto simp: g n well_formed_def split: if_splits)
next
  fix a c assume "tables s' a = Some c"
  then show "a < next_addr s'"
    using wf t by (auto simp: n well_formed_def split: if_splits)
next
  fix a
  have fin: "finite (holders s a)"
    using wf by (simp add: well_formed_def finite_holders)
  have old: "card (holders s a) \<le> owners (tables s) a"
    using wf by (simp add: well_formed_def)
  have hs: "holders s' a = holders s a - {h}"
    using holders_upd [OF g, of a] by simp
  show "card (holders s' a) \<le> owners (tables s') a"
  proof (cases "priv g = Some a")
    case True
    with t obtain c where c: "tables s a = Some c" "0 < use_count c"
      "tables s' = (if use_count c = 1 then (tables s)(a := None)
                      else (tables s)(a \<mapsto> c\<lparr>use_count := use_count c - 1\<rparr>))"
      by auto
    have "h \<in> holders s a"
      using h True by (simp add: holders_def)
    then have "card (holders s' a) = card (holders s a) - 1"
      using fin by (simp add: hs)
    moreover have "owners (tables s') a = owners (tables s) a - 1"
      using c by (simp add: owners_def)
    ultimately show ?thesis using old by simp
  next
    case False
    have "card (holders s a - {h}) \<le> card (holders s a)"
      using fin by (intro card_mono) auto
    moreover have "tables s' a = tables s a"
      using t False by (auto split: if_splits)
    then have "owners (tables s') a = owners (tables s) a"
      by (simp add: owners_def)
    ultimately show ?thesis using old hs by simp
  qed
qed

lemma wf_construct:
  assumes wf: "well_formed s"
    and g: "gobjects s' = (gobjects s)(Suc (next_addr s) \<mapsto>
        \<lparr>g_type = GARROW_TYPE_TABLE, priv = Some (next_addr s), in_construction = False\<rparr>)"
    and t: "tables s' = (tables s)(next_addr s \<mapsto> \<lparr>val = V, use_count = 1\<rparr>)"
    and n: "next_addr s' = Suc (Suc (next_addr s))"
  shows "well_formed s'"
  unfolding well_formed_def
proof (intro conjI allI impI)
  show "finite (dom (gobjects s'))"
    using wf by (simp add: g well_formed_def)
next
  fix h g' assume "gobjects s' h = Some g'"
  then show "\<not> in_construction g'" "h < next_addr s'"
    using wf by (auto simp: g n well_formed_def less_Suc_eq split: if_splits)
next
  fix a c assume "tables s' a = Some c"
  then show "a < next_addr s'"
    using wf by (auto simp: t n well_formed_def less_Suc_eq split: if_splits)
next
  fix a
  have fin: "finite (holders s a)"
    using wf by (simp add: well_formed_def finite_holders)
  have old: "card (holders s a) \<le> owners (tables s) a"
    using wf by (simp add: well_formed_def)
  show "card (holders s' a) \<le> owners (tables s') a"
  proof (cases "a = next_addr s")
    case True
    have "holders s a = {}"
      using holders_below [OF wf, of _ a] True by auto
    then have "holders s' a = {Suc (next_addr s)}"
      using holders_upd [OF g, of a] True by simp
    moreover have "owners (tables s') a = 1"
      using True by (simp add: t owners_def)
    ultimately show ?thesis by simp
  next
    case False
    have "holders s' a = holders s a - {Suc (next_addr s)}"
      using holders_upd [OF g, of a] False by auto
    moreover have "card (holders s a - {Suc (next_addr s)}) \<le> card (holders s a)"
      using fin by (intro card_mono) auto
    moreover have "owners (tables s') a = owners (tables s) a"
      using False by (simp add: t owners_def)
    ultimately show ?thesis using old by simp
  qed
qed

lemma wraps_below:
  assumes "well_formed s" "wraps s h a V"
  shows "h < next_addr s \<and> a < next_addr s"
  using assms by (auto simp: well_formed_def wraps_def split: option.splits)

lemma wraps_holder: "wraps s h a V \<Longrightarrow> h \<in> holders s a"
  by (auto simp: wraps_def holders_def split: option.splits)

lemma wraps_after_dispose:
  assumes wf: "well_formed s" and w: "wraps s h a V" and ne: "h' \<noteq> h"
    and h': "gobjects s h' = Some g" "g_type g = GARROW_TYPE_TABLE"
    and g: "gobjects s' = (gobjects s)(h' \<mapsto> g\<lparr>priv := None\<rparr>)"
    and t: "priv g = None \<and> tables s' = tables s \<or>
      (\<exists>b c. priv g = Some b \<and> tables s b = Some c \<and> 0 < use_count c \<and>
         tables s' = (if use_count c = 1 then (tables s)(b := None)
                      else (tables s)(b \<mapsto> c\<lparr>use_count := use_count c - 1\<rparr>)))"
  shows "wraps s' h a V"
proof (cases "priv g = Some a")
  case True
  with t obtain c where c: "tables s a = Some c"
      "tables s' = (if use_count c = 1 then (tables s)(a := None)
                      else (tables s)(a \<mapsto> c\<lparr>use_count := use_count c - 1\<rparr>))"
    by auto
  have "{h, h'} \<subseteq> holders s a"
    using wraps_holder [OF w] h' True by (simp add: holders_def)
  moreover have "finite (holders s a)"
    using wf by (simp add: well_formed_def finite_holders)
  ultimately have "card {h, h'} \<le> card (holders s a)"
    by (rule card_mono [rotated])
  moreover have "card {h, h'} = 2" using ne by simp
  moreover have "card (holders s a) \<le> owners (tables s) a"
    using wf by (simp add: well_formed_def)
  ultimately have "2 \<le> use_count c"
    using c by (simp add: owners_def)
  with c have "tables s' a = Some (c\<lparr>use_count := use_count c - 1\<rparr>)" by simp
  with w c ne \<open>2 \<le> use_count c\<close> show ?thesis
    by (auto simp: wraps_def g split: option.splits)
next
  case False
  with t have tab: "tables s' a = tables s a" by (auto split: if_splits)
  have gob: "gobjects s' h = gobjects s h" using ne by (simp add: g)
  show ?thesis by (rule wraps_same [OF w gob tab])
qed

lemma set_property_returns:
  assumes "well_formed s" "g_object_set_property garrow_table_class h name v s = Inr s'"
  shows "gobjects s' = gobjects s \<and> tables s' = tables s \<and> next_addr s' = next_addr s"
proof -
  from assms(2) obtain g where g: "gobjects s h = Some g"
    by (auto simp: g_object_set_property_def split: option.splits)
  with assms(1) have "\<not> in_construction g" by (simp add: well_formed_def)
  with assms(2) g show ?thesis
    by (auto simp: g_object_set_property_def find_pspec_def garrow_table_class_simps g_warning_def
        split: if_splits)
qed

lemma get_property_returns:
  "g_object_get_property garrow_table_class h name v s = Inr (r, s') \<Longrightarrow>
     gobjects s' = gobjects s \<and> tables s' = tables s \<and> next_addr s' = next_addr s"
  by (auto simp: g_object_get_property_def find_pspec_def garrow_table_class_simps g_warning_def
      garrow_table_get_property_def split: option.splits if_splits)

lemma call_table_step:
  assumes wf: "well_formed s" and run: "call_table c h' s = Inr s'"
  shows "well_formed s' \<and>
     (\<forall>h g. gobjects s h = Some g \<longrightarrow> \<not> (c = Dispose \<and> h' = h) \<longrightarrow> gobjects s' h = Some g) \<and>
     (\<forall>h a V. wraps s h a V \<longrightarrow> \<not> (c = Dispose \<and> h' = h) \<longrightarrow> wraps s' h a V)"
proof -
  have below: "h < next_addr s" if "gobjects s h = Some g" for h g
    using wf that by (auto simp: well_formed_def)
  have same: ?thesis
    if e: "tables s' = tables s \<and> gobjects s' = gobjects s \<and> next_addr s' = next_addr s"
  proof -
    from e have "well_formed s'" by (intro wf_same [OF wf]) simp_all
    moreover from e have "wraps s' h a V" if "wraps s h a V" for h a V
      by (intro wraps_same [OF that]) simp_all
    ultimately show ?thesis using e by simp
  qed
  have other: ?thesis
    if e: "tables s' = tables s \<and> next_addr s' = Suc (next_addr s) \<and>
        (\<exists>p. gobjects s' = (gobjects s)(next_addr s \<mapsto>
            \<lparr>g_type = ty, priv = p, in_construction = False\<rparr>))"
      and ty: "ty \<noteq> GARROW_TYPE_TABLE" for ty
  proof -
    from e obtain p where g: "gobjects s' = (gobjects s)(next_addr s \<mapsto>
            \<lparr>g_type = ty, priv = p, in_construction = False\<rparr>)" by blast
    have "well_formed s'"
      using e ty by (intro wf_new_other [OF wf g]) simp_all
    moreover have keep: "gobjects s' h = Some g'" if "gobjects s h = Some g'" for h g'
      using that below [OF that] by (simp add: g)
    moreover have "wraps s' h a V" if "wraps s h a V" for h a V
    proof -
      from that obtain g' where "gobjects s h = Some g'"
        by (auto simp: wraps_def split: option.splits)
      from keep [OF this] this e that show ?thesis
        by (intro wraps_same [OF that]) simp_all
    qed
    ultimately show ?thesis by blast
  qed
  show ?thesis
  proof (cases c)
    case Get_name
    with run obtain r where "garrow_table_get_name h' s = Inr (r, s')"
      by (auto simp: map_sum_def split: sum.splits)
    from get_name_returns [OF this] show ?thesis by (intro same) simp
  next
    case Get_n_columns
    with run obtain r where "garrow_table_get_n_columns h' s = Inr (r, s')"
      by (auto simp: map_sum_def split: sum.splits)
    from get_n_columns_returns [OF this] show ?thesis by (intro same) simp
  next
    case Get_n_rows
    with run obtain r where "garrow_table_get_n_rows h' s = Inr (r, s')"
      by (auto simp: map_sum_def split: sum.splits)
    from get_n_rows_returns [OF this] show ?thesis by (intro same) simp
  next
    case (Set_property name v)
    with run have "g_object_set_property garrow_table_class h' name v s = Inr s'" by simp
    from set_property_returns [OF wf this] show ?thesis by (intro same) simp
  next
    case (Get_property name v)
    with run obtain r where "g_object_get_property garrow_table_class h' name v s = Inr (r, s')"
      by (auto simp: map_sum_def split: sum.splits)
    from get_property_returns [OF this] show ?thesis by (intro same) simp
  next
    case Get_schema
    with run obtain r where "garrow_table_get_schema h' s = Inr (r, s')"
      by (auto simp: map_sum_def split: sum.splits)
    from get_schema_returns [OF this] show ?thesis
      by (intro other [of GARROW_TYPE_SCHEMA]) simp_all
  next
    case (Get_column i)
    with run obtain r where "garrow_table_get_column h' i s = Inr (r, s')"
      by (auto simp: map_sum_def split: sum.splits)
    from get_column_returns [OF this] show ?thesis
      by (intro other [of GARROW_TYPE_COLUMN]) simp_all
  next
    case Dispose
    with run have "garrow_table_dispose h' s = Inr s'" by simp
    from dispose_returns [OF this] obtain g where
      h': "gobjects s h' = Some g" "g_type g = GARROW_TYPE_TABLE"
      and g: "gobjects s' = (gobjects s)(h' \<mapsto> g\<lparr>priv := None\<rparr>)"
      and n: "next_addr s' = next_addr s"
      and t: "priv g = None \<and> tables s' = tables s \<or>
        (\<exists>a c. priv g = Some a \<and> tables s a = Some c \<and> 0 < use_count c \<and>
           tables s' = (if use_count c = 1 then (tables s)(a := None)
                        else (tables s)(a \<mapsto> c\<lparr>use_count := use_count c - 1\<rparr>)))"
      by blast
    have "well_formed s'"
      by (rule wf_dispose [OF wf h' g n t])
    moreover have "gobjects s' h = Some g'" if "gobjects s h = Some g'" "h' \<noteq> h" for h g'
      using that by (simp add: g)
    moreover have "wraps s' h a V" if "wraps s h a V" "h' \<noteq> h" for h a V
      by (rule wraps_after_dispose [OF wf that h' g t])
    ultimately show ?thesis using Dispose by blast
  qed
qed

lemma run_call_step:
  assumes wf: "well_formed s" and run: "run_call c s = Inr s'"
  shows "well_formed s' \<and>
     (\<forall>h g. gobjects s h = Some g \<longrightarrow> c \<noteq> On_handle Dispose h \<longrightarrow> gobjects s' h = Some g) \<and>
     (\<forall>h a V. wraps s h a V \<longrightarrow> c \<noteq> On_handle Dispose h \<longrightarrow> wraps s' h a V)"
proof (cases c)
  case (On_handle tc h')
  with run have "call_table tc h' s = Inr s'" by simp
  from call_table_step [OF wf this] show ?thesis
    unfolding On_handle by auto
next
  case (Wrap v)
  with run obtain r where "garrow_table_new_raw v s = Inr (r, s')"
    by (auto simp: map_sum_def split: sum.splits)
  from wrap_returns [OF this] obtain q where
    n: "next_addr s' = Suc (next_addr s)"
    and g: "gobjects s' = (gobjects s)(next_addr s \<mapsto>
              \<lparr>g_type = GARROW_TYPE_TABLE, priv = q, in_construction = False\<rparr>)"
    and t: "q = None \<and> tables s' = tables s \<or>
           (\<exists>a c. q = Some a \<and> tables s a = Some c \<and> 0 < use_count c \<and>
              tables s' = (tables s)(a \<mapsto> c\<lparr>use_count := Suc (use_count c)\<rparr>))"
    by blast
  have "well_formed s'"
    by (rule wf_wrap [OF wf g t n])
  moreover have keep: "gobjects s' h = Some g'" if "gobjects s h = Some g'" for h g'
  proof -
    from that wf have "h < next_addr s" by (auto simp: well_formed_def)
    with that show ?thesis by (simp add: g)
  qed
  moreover have "wraps s' h a V" if w: "wraps s h a V" for h a V
  proof -
    from w obtain g' c where h: "gobjects s h = Some g'" "g_type g' = GARROW_TYPE_TABLE"
      "priv g' = Some a" and c: "tables s a = Some c" "0 < use_count c" "val c = V"
      by (auto simp: wraps_def split: option.splits)
    from t c have "\<exists>c'. tables s' a = Some c' \<and> 0 < use_count c' \<and> val c' = V"
      by (auto split: if_splits)
    with keep [OF h(1)] h show ?thesis
      by (auto simp: wraps_def)
  qed
  ultimately show ?thesis by blast
next
  case (Construct name schema cols)
  with run obtain r where "garrow_table_new name schema cols s = Inr (r, s')"
    by (auto simp: map_sum_def split: sum.splits)
  from construct_returns [OF this] obtain t where
    n: "next_addr s' = Suc (Suc (next_addr s))"
    and g: "gobjects s' = (gobjects s)(Suc (next_addr s) \<mapsto>
        \<lparr>g_type = GARROW_TYPE_TABLE, priv = Some (next_addr s), in_construction = False\<rparr>)"
    and t: "tables s' = (tables s)(next_addr s \<mapsto> \<lparr>val = t, use_count = 1\<rparr>)"
    by blast
  have "well_formed s'"
    by (rule wf_construct [OF wf g t n])
  moreover have keep: "gobjects s' h = Some g'" if "gobjects s h = Some g'" for h g'
  proof -
    from that wf have "h < next_addr s" by (auto simp: well_formed_def)
    with that show ?thesis by (simp add: g)
  qed
  moreover have "wraps s' h a V" if w: "wraps s h a V" for h a V
  proof -
    from wraps_below [OF wf w] have "gobjects s' h = gobjects s h" "tables s' a = tables s a"
      by (simp_all add: g t)
    then show ?thesis by (rule wraps_same [OF w])
  qed
  ultimately show ?thesis by blast
qed

lemma run_calls_steps:
  assumes "well_formed s" "run_calls cs s = Inr s'" "On_handle Dispose h \<notin> set cs"
  shows "well_formed s' \<and> (\<forall>g. gobjects s h = Some g \<longrightarrow> gobjects s' h = Some g) \<and>
         (\<forall>a V. wraps s h a V \<longrightarrow> wraps s' h a V)"
  using assms
proof (induction cs arbitrary: s)
  case Nil
  then show ?case by simp
next
  case (Cons c cs)
  from Cons.prems(2) obtain s1 where r1: "run_call c s = Inr s1"
    and r2: "run_calls cs s1 = Inr s'"
    by (auto split: sum.splits)
  from Cons.prems(3) have c: "c \<noteq> On_handle Dispose h" and cs: "On_handle Dispose h \<notin> set cs"
    by auto
  note st = run_call_step [OF Cons.prems(1) r1]
  from st have wf1: "well_formed s1" by simp
  from Cons.IH [OF wf1 r2 cs] st c show ?case
    by blast
qed

lemma well_formed_empty: "well_formed empty_store"
  by (simp add: well_formed_def empty_store_def holders_def owners_def)

lemma run_calls_well_formed:
  "well_formed s \<Longrightarrow> run_calls cs s = Inr s' \<Longrightarrow> well_formed s'"
proof (induction cs arbitrary: s)
  case Nil
  then show ?case by simp
next
  case (Cons c cs)
  from Cons.prems(2) obtain s1 where r1: "run_call c s = Inr s1"
    and r2: "run_calls cs s1 = Inr s'"
    by (auto split: sum.splits)
  from run_call_step [OF Cons.prems(1) r1] have "well_formed s1" by simp
  from Cons.IH [OF this r2] show ?case .
qed

section \<open>When a teardown returns\<close>

lemma columns_owned_iff:
  "(\<forall>p \<in> set ps. case p of None \<Rightarrow> True | Some a \<Rightarrow> occurrences ps a \<le> owners hp a) \<longleftrightarrow>
   (\<forall>a. occurrences ps a \<le> owners hp a)"
proof
  assume l: "\<forall>p \<in> set ps. case p of None \<Rightarrow> True | Some a \<Rightarrow> occurrences ps a \<le> owners hp a"
  show "\<forall>a. occurrences ps a \<le> owners hp a"
  proof
    fix a
    show "occurrences ps a \<le> owners hp a"
    proof (cases "Some a \<in> set ps")
      case True
      with l show ?thesis by force
    next
      case False
      then show ?thesis by (simp add: occurrences_def count_list_0_iff)
    qed
  qed
next
  assume "\<forall>a. occurrences ps a \<le> owners hp a"
  then show "\<forall>p \<in> set ps. case p of None \<Rightarrow> True | Some a \<Rightarrow> occurrences ps a \<le> owners hp a"
    by (auto split: option.splits)
qed

lemma release_column_none: "release_column None s = Inr s"
  by (simp add: release_column_def)

lemma release_column_some:
  "release_column (Some a) s = Inr s' \<Longrightarrow>
     Suc (owners (columns s') a) = owners (columns s) a \<and>
     (\<forall>b. b \<noteq> a \<longrightarrow> owners (columns s') b = owners (columns s) b)"
  by (auto simp: release_column_def owners_def split: option.splits if_splits)

lemma release_column_owned:
  "0 < owners (columns s) a \<Longrightarrow> \<exists>s'. release_column (Some a) s = Inr s'"
  by (auto simp: release_column_def owners_def split: option.splits)

lemma release_column_fault:
  "release_column p s = Inl f \<Longrightarrow> f = UseAfterFree"
  by (auto simp: release_column_def split: option.splits if_splits)

lemma release_schema_fault:
  "release_schema p s = Inl f \<Longrightarrow> f = UseAfterFree"
  by (auto simp: release_schema_def split: option.splits if_splits)

lemma release_columns_fault:
  "release_columns ps s = Inl f \<Longrightarrow> f = UseAfterFree"
proof (induction ps arbitrary: s)
  case Nil
  then show ?case by simp
next
  case (Cons p ps)
  then show ?case
    by (auto split: sum.splits dest: release_column_fault)
qed

lemma release_table_fault:
  "release_table p s = Inl f \<Longrightarrow> f = UseAfterFree"
  by (auto simp: release_table_def split: option.splits if_splits sum.splits
      dest: release_columns_fault release_schema_fault)

lemma occurrences_Cons_None: "occurrences (None # ps) = occurrences ps"
  by (rule ext) (simp add: occurrences_def)

lemma occurrences_Cons_Some:
  "occurrences (Some a # ps) b = (if b = a then Suc (occurrences ps b) else occurrences ps b)"
  by (simp add: occurrences_def)

lemma release_columns_owned:
  "\<forall>a. occurrences ps a \<le> owners (columns s) a \<Longrightarrow> \<exists>s'. release_columns ps s = Inr s'"
proof (induction ps arbitrary: s)
  case Nil
  then show ?case by simp
next
  case (Cons p ps)
  show ?case
  proof (cases p)
    case None
    with Cons.prems have "\<forall>a. occurrences ps a \<le> owners (columns s) a"
      by (simp add: occurrences_Cons_None)
    from Cons.IH [OF this] None show ?thesis by (simp add: release_column_none)
  next
    case (Some a)
    from Cons.prems have le: "occurrences (Some a # ps) b \<le> owners (columns s) b" for b
      unfolding Some by blast
    from le [of a] have "0 < owners (columns s) a"
      by (simp add: occurrences_Cons_Some)
    from release_column_owned [OF this] obtain s1 where s1: "release_column (Some a) s = Inr s1"
      by blast
    note o = release_column_some [OF s1]
    have "\<forall>b. occurrences ps b \<le> owners (columns s1) b"
    proof
      fix b
      show "occurrences ps b \<le> owners (columns s1) b"
      proof (cases "b = a")
        case True
        from le [of a] o show ?thesis unfolding True
          by (simp add: occurrences_Cons_Some)
      next
        case False
        with le [of b] o show ?thesis
          by (simp add: occurrences_Cons_Some)
      qed
    qed
    from Cons.IH [OF this] s1 Some show ?thesis by simp
  qed
qed

lemma release_columns_needs:
  "release_columns ps s = Inr s' \<Longrightarrow> occurrences ps a \<le> owners (columns s) a"
proof (induction ps arbitrary: s)
  case Nil
  then show ?case by (simp add: occurrences_def)
next
  case (Cons p ps)
  show ?case
  proof (cases p)
    case None
    with Cons.prems have "release_columns ps s = Inr s'" by (simp add: release_column_none)
    from Cons.IH [OF this] show ?thesis
      unfolding None by (simp add: occurrences_Cons_None)
  next
    case (Some b)
    from Cons.prems obtain s1 where s1: "release_column (Some b) s = Inr s1"
      and r: "release_columns ps s1 = Inr s'"
      unfolding Some by (auto split: sum.splits)
    note o = release_column_some [OF s1]
    from Cons.IH [OF r] have "occurrences ps a \<le> owners (columns s1) a" .
    with o show ?thesis
      unfolding Some by (cases "a = b") (auto simp: occurrences_Cons_Some)
  qed
qed

lemma release_schema_owned:
  "(\<exists>s'. release_schema p s = Inr s') \<longleftrightarrow>
   (case p of None \<Rightarrow> True | Some b \<Rightarrow> 0 < owners (schemas s) b)"
  by (auto simp: release_schema_def owners_def split: option.splits)

lemma release_table_returns_iff:
  "(\<exists>s'. release_table p s = Inr s') \<longleftrightarrow> releasable s p"
proof (cases p)
  case None
  then show ?thesis by (simp add: release_table_def releasable_def)
next
  case (Some a)
  show ?thesis
  proof (cases "tables s a")
    case None
    with Some show ?thesis by (simp add: release_table_def releasable_def)
  next
    case c: (Some c)
    define s0 where "s0 = s\<lparr>tables := (tables s)(a := None), destroyed := destroyed s @ [a]\<rparr>"
    have s0: "columns s0 = columns s" "schemas s0 = schemas s"
      by (simp_all add: s0_def)
    consider "use_count c = 0" | "use_count c = 1" | "1 < use_count c" by linarith
    then show ?thesis
    proof cases
      case 1
      with Some c show ?thesis by (simp add: release_table_def releasable_def)
    next
      case 3
      with Some c show ?thesis by (simp add: release_table_def releasable_def)
    next
      case 2
      have rt: "release_table p s =
          (case release_columns (table_columns (val c)) s0 of
             Inl f \<Rightarrow> Inl f | Inr s' \<Rightarrow> release_schema (table_schema (val c)) s')"
        using Some c 2 by (simp add: release_table_def s0_def)
      have rl: "releasable s p = members_owned s (val c)"
        using Some c 2 by (simp add: releasable_def)
      show ?thesis
      proof
        assume "\<exists>s'. release_table p s = Inr s'"
        then obtain s' where "release_table p s = Inr s'" ..
        with rt obtain s1 where s1: "release_columns (table_columns (val c)) s0 = Inr s1"
          and s2: "release_schema (table_schema (val c)) s1 = Inr s'"
          by (auto split: sum.splits)
        from release_columns_needs [OF s1]
        have "\<forall>a. occurrences (table_columns (val c)) a \<le> owners (columns s) a"
          by (simp add: s0)
        moreover
        from release_columns_frame [OF s1] have e: "schemas s1 = schemas s" by (simp add: s0)
        from s2 have "\<exists>s'. release_schema (table_schema (val c)) s1 = Inr s'" by blast
        then have "case table_schema (val c) of None \<Rightarrow> True | Some b \<Rightarrow> 0 < owners (schemas s) b"
          unfolding release_schema_owned e .
        ultimately show "releasable s p"
          unfolding rl members_owned_def columns_owned_iff by simp
      next
        assume "releasable s p"
        then have m: "\<forall>a. occurrences (table_columns (val c)) a \<le> owners (columns s0) a"
          and sc: "case table_schema (val c) of None \<Rightarrow> True | Some b \<Rightarrow> 0 < owners (schemas s) b"
          unfolding rl members_owned_def columns_owned_iff by (simp_all add: s0)
        from release_columns_owned [OF m] obtain s1 where
          s1: "release_columns (table_columns (val c)) s0 = Inr s1" by blast
        from release_columns_frame [OF s1] have e: "schemas s1 = schemas s" by (simp add: s0)
        from sc have "\<exists>s'. release_schema (table_schema (val c)) s1 = Inr s'"
          unfolding release_schema_owned e .
        with s1 show "\<exists>s'. release_table p s = Inr s'"
          unfolding rt by simp
      qed
    qed
  qed
qed

lemma store_priv_heaps:
  "tables (store_priv h p s) = tables s" "columns (store_priv h p s) = columns s"
  "schemas (store_priv h p s) = schemas s"
  by (simp_all add: store_priv_def)

lemma releasable_store_priv: "releasable (store_priv h p s) q = releasable s q"
  unfolding releasable_def members_owned_def store_priv_heaps ..

lemma dispose_returns_iff:
  assumes "gobjects s h = Some g" "g_type g = GARROW_TYPE_TABLE"
  shows "(\<exists>s1. garrow_table_dispose h s = Inr s1) \<longleftrightarrow> releasable s (priv g)"
proof -
  have "garrow_table_dispose h s = release_table (priv g) (store_priv h None s)"
    using assms
    by (simp add: garrow_table_dispose_def GARROW_TABLE_GET_PRIVATE_def g_object_real_dispose_def
        split: sum.splits)
  then show ?thesis
    using release_table_returns_iff [of "priv g" "store_priv h None s"]
    by (simp add: releasable_store_priv)
qed

lemma dispose_fault:
  "garrow_table_dispose h s = Inl f \<Longrightarrow> gobjects s h = Some g \<Longrightarrow> g_type g = GARROW_TYPE_TABLE \<Longrightarrow>
   f = UseAfterFree"
  by (auto simp: garrow_table_dispose_def GARROW_TABLE_GET_PRIVATE_def g_object_real_dispose_def
      split: sum.splits dest: release_table_fault)

section \<open>The small world, checked\<close>

lemma scenario_handles:
  "schema_handle_ok scenario 3" "\<forall>h \<in> set [2]. column_handle_ok scenario h"
  by (simp_all add: scenario_def schema_handle_ok_def column_handle_ok_def live_def)

lemma scenario_new: "garrow_table_new ''t'' 3 [2] scenario = Inr (5, table_world)"
proof -
  have c: "more_owners (occurrences (map (raw_of scenario) [2])) (columns scenario) = columns table_world"
    by (rule ext) (simp add: more_owners_def occurrences_def raw_of_def scenario_def table_world_def)
  have s: "more_owners (occurrences [raw_of scenario 3]) (schemas scenario) = schemas table_world"
    by (rule ext) (simp add: more_owners_def occurrences_def raw_of_def scenario_def table_world_def)
  have t: "built_table ''t'' 3 [2] scenario = table_t"
    by (simp add: built_table_def raw_of_def scenario_def table_t_def first_length_def deref_def
        Column_length_def)
  show ?thesis
    unfolding garrow_table_new_ok [OF scenario_handles] c s t
    by (simp add: scenario_def table_world_def fun_upd_twist)
qed

lemma table_world_dispose: "garrow_table_dispose 5 table_world = Inr disposed_world"
  by (simp add: garrow_table_dispose_def GARROW_TABLE_GET_PRIVATE_def table_world_def
      store_priv_def release_table_def release_column_def release_schema_def table_t_def
      g_object_real_dispose_def disposed_world_def)

lemma table_world_wraps: "wraps table_world 5 4 table_t"
  by (simp add: wraps_def table_world_def)

lemma table_world_handle:
  "gobjects table_world 5 =
     Some \<lparr>g_type = GARROW_TYPE_TABLE, priv = Some 4, in_construction = False\<rparr>"
  by (simp add: table_world_def)

lemma table_world_handles:
  "live (tables table_world) (Some 4)" "schema_handle_ok table_world 3"
  "\<forall>h \<in> set [2]. column_handle_ok table_world h"
  by (simp_all add: table_world_def schema_handle_ok_def column_handle_ok_def live_def)

lemma table_world_column_live: "live (columns table_world) (Some 0)"
  by (simp add: live_def table_world_def)

lemma holders_table_world: "holders table_world a = (if a = 4 then {5} else {})"
  by (auto simp: holders_def table_world_def split: if_splits)

lemma well_formed_table_world: "well_formed table_world"
  unfolding well_formed_def holders_table_world
  by (auto simp: table_world_def owners_def split: if_splits)

lemma table_world_calls:
  "run_calls [On_handle Get_n_rows 5, On_handle (Set_property ''table'' NULL) 5,
              Wrap (AddressOf (Some 4)), On_handle Dispose 6] table_world =
   Inr (table_world\<lparr>warnings := [CONSTRUCT_ONLY_AFTER_CONSTRUCTION ''table''],
          gobjects := (gobjects table_world)(6 \<mapsto>
             \<lparr>g_type = GARROW_TYPE_TABLE, priv = None, in_construction = False\<rparr>),
          next_addr := 7\<rparr>)"
proof -
  define s1 where "s1 = g_warning (CONSTRUCT_ONLY_AFTER_CONSTRUCTION ''table'') table_world"
  define s2 where "s2 = s1\<lparr>tables := (tables s1)(4 \<mapsto> \<lparr>val = table_t, use_count = Suc (Suc 0)\<rparr>),
            gobjects := (gobjects s1)(6 \<mapsto>
               \<lparr>g_type = GARROW_TYPE_TABLE, priv = Some 4, in_construction = False\<rparr>),
            next_addr := 7\<rparr>"
  have e1: "run_call (On_handle Get_n_rows 5) table_world = Inr table_world"
    using get_n_rows_wraps [OF table_world_wraps] by simp
  have e2: "run_call (On_handle (Set_property ''table'' NULL) 5) table_world = Inr s1"
    using set_property_rejected [OF table_world_handle, of NULL] by (simp add: s1_def)
  have e3: "run_call (Wrap (AddressOf (Some 4))) s1 = Inr s2"
    using garrow_table_new_raw_live [of s1 4 "\<lparr>val = table_t, use_count = 1\<rparr>"]
    by (simp add: s1_def s2_def g_warning_def table_world_def)
  have e4: "run_call (On_handle Dispose 6) s2 =
     Inr (s2\<lparr>gobjects := (gobjects s2)(6 \<mapsto>
               \<lparr>g_type = GARROW_TYPE_TABLE, priv = None, in_construction = False\<rparr>),
           tables := (tables s2)(4 \<mapsto> \<lparr>val = table_t, use_count = Suc 0\<rparr>)\<rparr>)"
    using garrow_table_dispose_shared [of s2 6 "\<lparr>g_type = GARROW_TYPE_TABLE, priv = Some 4, in_construction = False\<rparr>" 4
         "\<lparr>val = table_t, use_count = Suc (Suc 0)\<rparr>"]
    by (simp add: s2_def)
  have "run_calls [On_handle Get_n_rows 5, On_handle (Set_property ''table'' NULL) 5,
              Wrap (AddressOf (Some 4)), On_handle Dispose 6] table_world =
        Inr (s2\<lparr>gobjects := (gobjects s2)(6 \<mapsto>
               \<lparr>g_type = GARROW_TYPE_TABLE, priv = None, in_construction = False\<rparr>),
           tables := (tables s2)(4 \<mapsto> \<lparr>val = table_t, use_count = Suc 0\<rparr>)\<rparr>)"
    by (simp only: run_calls.simps e1 e2 e3 e4 sum.case)
  then show ?thesis
    by (simp add: s2_def s1_def g_warning_def table_world_def fun_upd_twist)
qed

lemma wide_handles:
  "schema_handle_ok wide_world 8589934593" "\<forall>h \<in> set wide_columns. column_handle_ok wide_world h"
  unfolding wide_columns_def set_upt
  by (auto simp: schema_handle_ok_def column_handle_ok_def wide_world_def live_def)

lemma wide_length: "length wide_columns = 4294967296"
  unfolding wide_columns_def by (simp only: length_upt)

lemma negative_world_wraps: "wraps negative_world 5 4 negative_table"
  by (simp add: wraps_def negative_world_def)

lemma dangling_world_handle:
  "gobjects dangling_world 5 =
     Some \<lparr>g_type = GARROW_TYPE_TABLE, priv = Some 4, in_construction = False\<rparr>"
  by (simp add: dangling_world_def table_world_def)

section \<open>Accessors against the native table\<close>

text \<open>
  Claim C1, as amended. For a table handle \<open>h\<close> wrapping the native table \<open>V\<close>, the
  column count and the row count that the wrapper returns are \<open>V\<close>'s own
  \<^verbatim>\<open>num_columns()\<close> and \<^verbatim>\<open>num_rows()\<close> converted by the \<^verbatim>\<open>return\<close> to the unsigned
  type of the same width. Read as numbers, the value returned is the native value modulo
  \<open>2 ^ 32\<close> for the columns and modulo \<open>2 ^ 64\<close> for the rows: the native value
  itself where that is not negative, and the native value plus \<open>2 ^ 32\<close> (plus
  \<open>2 ^ 64\<close>) where it is negative. The name accessor returns a pointer into \<open>V\<close>'s
  own name buffer, which holds the bytes of \<open>V\<close>'s name and the terminating zero
  byte. Each accessor leaves the state as it was. The buffer stays readable, with the
  same bytes, for as long as \<open>h\<close> lives: in a well-formed store, after every sequence
  of calls of the interface that returns and does not tear \<open>h\<close> down, whatever it
  does to other handles of the same native table.
\<close>

theorem accessors_agree_with_native:
  assumes "wraps s h a V"
  shows "garrow_table_get_n_columns h s = Inr (guint_of_int (Table_num_columns V), s) \<and>
         uint (guint_of_int (Table_num_columns V)) = sint (Table_num_columns V) mod 4294967296 \<and>
         (0 \<le> sint (Table_num_columns V) \<longrightarrow>
            uint (guint_of_int (Table_num_columns V)) = sint (Table_num_columns V)) \<and>
         (sint (Table_num_columns V) < 0 \<longrightarrow>
            uint (guint_of_int (Table_num_columns V)) = sint (Table_num_columns V) + 4294967296) \<and>
         garrow_table_get_n_rows h s = Inr (guint64_of_int64 (Table_num_rows V), s) \<and>
         uint (guint64_of_int64 (Table_num_rows V)) =
           sint (Table_num_rows V) mod 18446744073709551616 \<and>
         (0 \<le> sint (Table_num_rows V) \<longrightarrow>
            uint (guint64_of_int64 (Table_num_rows V)) = sint (Table_num_rows V)) \<and>
         (sint (Table_num_rows V) < 0 \<longrightarrow>
            uint (guint64_of_int64 (Table_num_rows V)) =
              sint (Table_num_rows V) + 18446744073709551616) \<and>
         garrow_table_get_name h s = Inr (TableNameBuffer a, s) \<and>
         buffer_at (TableNameBuffer a) s = Inr (c_str (Table_name V)) \<and>
         (well_formed s \<longrightarrow>
            (\<forall>cs s'. run_calls cs s = Inr s' \<longrightarrow> On_handle Dispose h \<notin> set cs \<longrightarrow>
               buffer_at (TableNameBuffer a) s' = Inr (c_str (Table_name V))))"
proof -
  have later: "buffer_at (TableNameBuffer a) s' = Inr (c_str (Table_name V))"
    if "well_formed s" "run_calls cs s = Inr s'" "On_handle Dispose h \<notin> set cs" for cs s'
  proof -
    from run_calls_steps [OF that] assms have "wraps s' h a V" by blast
    then show ?thesis by (rule buffer_wraps)
  qed
  note c = sint_mod_32 [of "Table_num_columns V"] and r = sint_mod_64 [of "Table_num_rows V"]
  show ?thesis
    unfolding uint_guint_of_int uint_guint64_of_int64
  proof (intro conjI)
    show "garrow_table_get_n_columns h s = Inr (guint_of_int (Table_num_columns V), s)"
      using assms by (rule get_n_columns_wraps)
    show "garrow_table_get_n_rows h s = Inr (guint64_of_int64 (Table_num_rows V), s)"
      using assms by (rule get_n_rows_wraps)
    show "garrow_table_get_name h s = Inr (TableNameBuffer a, s)"
      using assms by (rule get_name_wraps)
    show "buffer_at (TableNameBuffer a) s = Inr (c_str (Table_name V))"
      using assms by (rule buffer_wraps)
    show "well_formed s \<longrightarrow>
            (\<forall>cs s'. run_calls cs s = Inr s' \<longrightarrow> On_handle Dispose h \<notin> set cs \<longrightarrow>
               buffer_at (TableNameBuffer a) s' = Inr (c_str (Table_name V)))"
      using later by blast
  qed (use c r in simp_all)
qed

text \<open>
  Claim C1 as first stated, that the row count returned equals the native
  \<^verbatim>\<open>num_rows()\<close>, fails for a native table whose \<^verbatim>\<open>num_rows()\<close> is negative: where
  the native table answers -1, the wrapper returns 18446744073709551615.
\<close>

theorem n_rows_of_negative_num_rows:
  "wraps negative_world 5 4 negative_table \<and>
   sint (Table_num_rows negative_table) = - 1 \<and>
   garrow_table_get_n_rows 5 negative_world = Inr (18446744073709551615, negative_world) \<and>
   uint (18446744073709551615 :: guint64) = 18446744073709551615"
  using get_n_rows_wraps [OF negative_world_wraps] negative_world_wraps
  by (simp add: Table_num_rows_def negative_table_def guint64_of_int64_def)

text \<open>
  In the small world: the table \<open>t\<close> through its handle at 5, before and after a
  row count, a refused property write, a second wrapping of the native table and the
  teardown of that second handle; and the row count of the table whose \<^verbatim>\<open>num_rows()\<close>
  is -1.
\<close>

theorem accessors_agree_with_native_witness:
  "wraps table_world 5 4 table_t \<and> well_formed table_world \<and>
   sint (Table_num_columns table_t) = 1 \<and> sint (Table_num_rows table_t) = 0 \<and>
   garrow_table_get_n_columns 5 table_world = Inr (1, table_world) \<and> uint (1 :: guint) = 1 \<and>
   garrow_table_get_n_rows 5 table_world = Inr (0, table_world) \<and> uint (0 :: guint64) = 0 \<and>
   garrow_table_get_name 5 table_world = Inr (TableNameBuffer 4, table_world) \<and>
   buffer_at (TableNameBuffer 4) table_world = Inr [CHR ''t'', CHR 0x00] \<and>
   buffer_at (TableNameBuffer 4)
     (table_world\<lparr>warnings := [CONSTRUCT_ONLY_AFTER_CONSTRUCTION ''table''],
          gobjects := (gobjects table_world)(6 \<mapsto>
             \<lparr>g_type = GARROW_TYPE_TABLE, priv = None, in_construction = False\<rparr>),
          next_addr := 7\<rparr>) = Inr [CHR ''t'', CHR 0x00] \<and>
   wraps negative_world 5 4 negative_table \<and> sint (Table_num_rows negative_table) = - 1 \<and>
   sint (Table_num_rows negative_table) < 0 \<and>
   uint (guint64_of_int64 (Table_num_rows negative_table)) = - 1 + 18446744073709551616"
proof -
  note th = accessors_agree_with_native [OF table_world_wraps]
  note tn = accessors_agree_with_native [OF negative_world_wraps]
  have d: "On_handle Dispose 5 \<notin> set [On_handle Get_n_rows 5,
      On_handle (Set_property ''table'' NULL) 5, Wrap (AddressOf (Some 4)), On_handle Dispose 6]"
    by simp
  from th well_formed_table_world table_world_calls d
  have "buffer_at (TableNameBuffer 4)
     (table_world\<lparr>warnings := [CONSTRUCT_ONLY_AFTER_CONSTRUCTION ''table''],
          gobjects := (gobjects table_world)(6 \<mapsto>
             \<lparr>g_type = GARROW_TYPE_TABLE, priv = None, in_construction = False\<rparr>),
          next_addr := 7\<rparr>) = Inr (c_str (Table_name table_t))"
    by blast
  moreover have n: "sint (Table_num_rows negative_table) = - 1"
    by (simp add: Table_num_rows_def negative_table_def)
  moreover from tn n
  have "uint (guint64_of_int64 (Table_num_rows negative_table)) = - 1 + 18446744073709551616"
    by simp
  ultimately show ?thesis
    using th table_world_wraps well_formed_table_world negative_world_wraps
    by (simp add: Table_num_columns_def Table_num_rows_def Table_name_def table_t_def c_str_def
        guint_of_int_def guint64_of_int64_def)
qed

section \<open>Counting columns\<close>

text \<open>
  Claim C2, as amended. For every name, every valid schema handle and every list of
  valid column handles, \<^verbatim>\<open>garrow_table_new\<close> returns a handle, and
  \<^verbatim>\<open>garrow_table_get_n_columns\<close> on it returns the length \<open>N\<close> of the list as a
  \<^verbatim>\<open>guint\<close>, that is \<open>N\<close> modulo \<open>2 ^ 32\<close>: exactly \<open>N\<close> for every list of fewer
  than \<open>2 ^ 32\<close> handles, so for none, for one and for many.
\<close>

theorem n_columns_after_new:
  assumes "schema_handle_ok s schema" and "\<forall>h \<in> set cols. column_handle_ok s h"
  shows "\<exists>h s'. garrow_table_new name schema cols s = Inr (h, s') \<and>
           garrow_table_get_n_columns h s' = Inr (word_of_nat (length cols), s') \<and>
           unat (word_of_nat (length cols) :: guint) = length cols mod 4294967296 \<and>
           (length cols < 4294967296 \<longrightarrow> unat (word_of_nat (length cols) :: guint) = length cols)"
proof -
  from new_then_dispose [OF assms, of name] obtain s1 where
    new: "garrow_table_new name schema cols s = Inr (Suc (next_addr s), s1)"
    and w: "wraps s1 (Suc (next_addr s)) (next_addr s) (built_table name schema cols s)"
    by blast
  have "garrow_table_get_n_columns (Suc (next_addr s)) s1 = Inr (word_of_nat (length cols), s1)"
    using get_n_columns_wraps [OF w]
    by (simp add: guint_of_int_same_bits Table_num_columns_def built_table_def)
  with new show ?thesis
    by (auto simp: unat_of_nat)
qed

text \<open>
  Claim C2 as first stated, for a list of any length, fails at \<open>2 ^ 32\<close> column
  handles: the table is made, and the count read back is 0.
\<close>

theorem n_columns_wraps_at_two_to_32:
  "garrow_table_new ''t'' 8589934593 wide_columns wide_world = Inr (8589934595, wide_table_world) \<and>
   garrow_table_get_n_columns 8589934595 wide_table_world = Inr (0, wide_table_world) \<and>
   length wide_columns = 4294967296"
proof -
  have n: "next_addr wide_world = 8589934594"
    by (simp add: wide_world_def)
  have new: "garrow_table_new ''t'' 8589934593 wide_columns wide_world =
             Inr (8589934595, wide_table_world)"
    unfolding garrow_table_new_ok [OF wide_handles] wide_table_world_def n by simp
  have "wraps wide_table_world 8589934595 8589934594
          (built_table ''t'' 8589934593 wide_columns wide_world)"
    by (simp add: wraps_def wide_table_world_def)
  from get_n_columns_wraps [OF this]
  have "garrow_table_get_n_columns 8589934595 wide_table_world = Inr (0, wide_table_world)"
    by (simp add: guint_of_int_same_bits Table_num_columns_def built_table_def wide_length)
  with new wide_length show ?thesis by simp
qed

text \<open>In the small world, for no column, one column and three.\<close>

theorem n_columns_after_new_witness:
  "schema_handle_ok scenario 3 \<and> column_handle_ok scenario 2 \<and>
   (\<exists>h s'. garrow_table_new ''t'' 3 [] scenario = Inr (h, s') \<and>
      garrow_table_get_n_columns h s' = Inr (0, s')) \<and>
   (\<exists>h s'. garrow_table_new ''t'' 3 [2] scenario = Inr (h, s') \<and>
      garrow_table_get_n_columns h s' = Inr (1, s')) \<and>
   (\<exists>h s'. garrow_table_new ''t'' 3 [2, 2, 2] scenario = Inr (h, s') \<and>
      garrow_table_get_n_columns h s' = Inr (3, s'))"
proof -
  have s: "schema_handle_ok scenario 3" and c: "column_handle_ok scenario 2"
    using scenario_handles by simp_all
  have c0: "\<forall>h \<in> set []. column_handle_ok scenario h"
    and c1: "\<forall>h \<in> set [2]. column_handle_ok scenario h"
    and c3: "\<forall>h \<in> set [2, 2, 2]. column_handle_ok scenario h"
    using c by simp_all
  from n_columns_after_new [OF s c0, of "''t''"]
  have a0: "\<exists>h s'. garrow_table_new ''t'' 3 [] scenario = Inr (h, s') \<and>
      garrow_table_get_n_columns h s' = Inr (0, s')"
    by simp
  from n_columns_after_new [OF s c1, of "''t''"]
  have a1: "\<exists>h s'. garrow_table_new ''t'' 3 [2] scenario = Inr (h, s') \<and>
      garrow_table_get_n_columns h s' = Inr (1, s')"
    by simp
  from n_columns_after_new [OF s c3, of "''t''"]
  have a3: "\<exists>h s'. garrow_table_new ''t'' 3 [2, 2, 2] scenario = Inr (h, s') \<and>
      garrow_table_get_n_columns h s' = Inr (3, s')"
    by simp
  from s c a0 a1 a3 show ?thesis by (intro conjI)
qed

section \<open>The table \<open>t\<close> with the column \<open>a\<close>\<close>

text \<open>
  Claim C3. In any store with a handle of a schema whose one field is named \<open>a\<close> and
  has an integer type, and a handle of a column of that field with no rows: the table
  made by \<^verbatim>\<open>garrow_table_new\<close> from the name \<open>t\<close>, that schema and that column has the
  name \<open>t\<close>, one column and no rows, and the handle that
  \<^verbatim>\<open>garrow_table_get_column\<close> returns for index 0 has the name \<open>a\<close>.
\<close>

theorem table_t_with_column_a:
  assumes sch: "schema_handle_ok s schema" and col: "column_handle_ok s col"
    and S: "deref (schemas s) (raw_of s schema) = Inr S" "schema_fields S = [F]"
    and F: "field_name F = ''a''" "integer_type (field_type F)"
    and C: "deref (columns s) (raw_of s col) = Inr C" "column_field C = F" "column_length C = 0"
  shows "\<exists>h a s1. garrow_table_new ''t'' schema [col] s = Inr (h, s1) \<and>
           garrow_table_get_name h s1 = Inr (TableNameBuffer a, s1) \<and>
           buffer_at (TableNameBuffer a) s1 = Inr (c_str ''t'') \<and>
           garrow_table_get_n_columns h s1 = Inr (1, s1) \<and>
           garrow_table_get_n_rows h s1 = Inr (0, s1) \<and>
           (\<exists>hc s2 p. garrow_table_get_column h 0 s1 = Inr (hc, s2) \<and>
              garrow_column_get_name hc s2 = Inr (p, s2) \<and>
              buffer_at p s2 = Inr (c_str ''a''))"
proof -
  define a where "a = next_addr s"
  define V where "V = built_table ''t'' schema [col] s"
  define s1 where "s1 = s\<lparr>tables := (tables s)(a \<mapsto> \<lparr>val = V, use_count = 1\<rparr>),
            columns := more_owners (occurrences (map (raw_of s) [col])) (columns s),
            schemas := more_owners (occurrences [raw_of s schema]) (schemas s),
            gobjects := (gobjects s)(Suc a \<mapsto>
                \<lparr>g_type = GARROW_TYPE_TABLE, priv = Some a, in_construction = False\<rparr>),
            next_addr := Suc (Suc a)\<rparr>"
  have cols: "\<forall>h \<in> set [col]. column_handle_ok s h" using col by simp
  have new: "garrow_table_new ''t'' schema [col] s = Inr (Suc a, s1)"
    using garrow_table_new_ok [OF sch cols, of "''t''"] by (simp add: s1_def a_def V_def)
  have w: "wraps s1 (Suc a) a V"
    by (simp add: wraps_def s1_def)
  from col obtain q where q: "raw_of s col = Some q" and lq: "live (columns s) (Some q)"
    by (auto simp: column_handle_ok_def raw_of_def live_def split: option.splits)
  have V: "Table_name V = ''t''" "Table_num_columns V = 1" "Table_num_rows V = 0"
    "Table_column V (int_of_guint 0) = Inr (Some q)"
    using C q by (simp_all add: V_def built_table_def Table_name_def Table_num_columns_def
        Table_num_rows_def Table_column_def int_of_guint_def first_length_def Column_length_def)
  have lq1: "live (columns s1) (Some q)"
    using lq by (simp add: s1_def)
  define s2 where "s2 = s1\<lparr>columns := more_owners (occurrences [Some q]) (columns s1),
            gobjects := (gobjects s1)(next_addr s1 \<mapsto>
               \<lparr>g_type = GARROW_TYPE_COLUMN, priv = Some q, in_construction = False\<rparr>),
            next_addr := Suc (next_addr s1)\<rparr>"
  have gc: "garrow_table_get_column (Suc a) 0 s1 = Inr (next_addr s1, s2)"
    using garrow_table_get_column_ok [OF w V(4) lq1] by (simp add: s2_def)
  have lq2: "live (columns s2) (Some q)"
    using lq1 by (simp add: s2_def)
  have ok2: "column_handle_ok s2 (next_addr s1)" "raw_of s2 (next_addr s1) = Some q"
    using lq2 by (simp_all add: column_handle_ok_def raw_of_def s2_def)
  have gn: "garrow_column_get_name (next_addr s1) s2 = Inr (ColumnNameBuffer q, s2)"
    by (rule garrow_column_get_name_ok [OF ok2])
  have "deref (columns s2) (Some q) = deref (columns s) (Some q)"
    using lq lq1 by (simp add: s2_def s1_def deref_more_owners)
  then have buf: "buffer_at (ColumnNameBuffer q) s2 = Inr (c_str ''a'')"
    using C F q by (simp add: buffer_at_def Column_name_def)
  from new get_name_wraps [OF w] buffer_wraps [OF w] get_n_columns_wraps [OF w]
    get_n_rows_wraps [OF w] V gc gn buf
  show ?thesis
    by (simp add: guint_of_int_same_bits guint64_of_int64_same_bits)
qed

text \<open>In the small world, where the table is made at address 4 with its handle at 5.\<close>

theorem table_t_with_column_a_witness:
  "schema_handle_ok scenario 3 \<and> column_handle_ok scenario 2 \<and>
   garrow_table_new ''t'' 3 [2] scenario = Inr (5, table_world) \<and>
   garrow_table_get_name 5 table_world = Inr (TableNameBuffer 4, table_world) \<and>
   buffer_at (TableNameBuffer 4) table_world = Inr [CHR ''t'', CHR 0x00] \<and>
   garrow_table_get_n_columns 5 table_world = Inr (1, table_world) \<and>
   garrow_table_get_n_rows 5 table_world = Inr (0, table_world) \<and>
   (\<exists>hc s2 p. garrow_table_get_column 5 0 table_world = Inr (hc, s2) \<and>
      garrow_column_get_name hc s2 = Inr (p, s2) \<and>
      buffer_at p s2 = Inr [CHR ''a'', CHR 0x00])"
proof -
  have s: "schema_handle_ok scenario 3" and c: "column_handle_ok scenario 2"
    using scenario_handles by simp_all
  have S: "deref (schemas scenario) (raw_of scenario 3) = Inr \<lparr>schema_fields = [field_a]\<rparr>"
    "schema_fields \<lparr>schema_fields = [field_a]\<rparr> = [field_a]"
    by (simp_all add: deref_def raw_of_def scenario_def)
  have F: "field_name field_a = ''a''" "integer_type (field_type field_a)"
    by (simp_all add: field_a_def integer_type_def)
  have C: "deref (columns scenario) (raw_of scenario 2) =
             Inr \<lparr>column_field = field_a, column_length = 0\<rparr>"
    "column_field \<lparr>column_field = field_a, column_length = 0\<rparr> = field_a"
    "column_length \<lparr>column_field = field_a, column_length = 0\<rparr> = 0"
    by (simp_all add: deref_def raw_of_def scenario_def)
  from table_t_with_column_a [OF s c S F C] obtain h a s1 where
    r: "garrow_table_new ''t'' 3 [2] scenario = Inr (h, s1)"
      "garrow_table_get_name h s1 = Inr (TableNameBuffer a, s1)"
      "buffer_at (TableNameBuffer a) s1 = Inr (c_str ''t'')"
      "garrow_table_get_n_columns h s1 = Inr (1, s1)"
      "garrow_table_get_n_rows h s1 = Inr (0, s1)"
      "\<exists>hc s2 p. garrow_table_get_column h 0 s1 = Inr (hc, s2) \<and>
          garrow_column_get_name hc s2 = Inr (p, s2) \<and> buffer_at p s2 = Inr (c_str ''a'')"
    by blast
  from r(1) have hs: "h = 5" "s1 = table_world"
    by (simp_all add: scenario_new)
  from r(2) have a: "a = 4"
    using get_name_wraps [OF table_world_wraps] by (simp add: hs)
  from r s c show ?thesis
    unfolding hs a by (simp add: scenario_new c_str_def)
qed

section \<open>Teardown\<close>

text \<open>
  Claim C4. Let \<open>h\<close> be a table handle. If the pointer it stores is releasable (it
  is empty, or its table has an owner and, where that is the last one, columns and a
  schema with the owners that the destructor drops), then \<^verbatim>\<open>garrow_table_dispose\<close>
  returns: the handle's stored pointer is now the empty pointer, the native table it
  pointed to has exactly one owner less than before and no other table has changed; a
  handle whose pointer was empty already leaves the whole state as it was. Running the
  dispose function a second time on the same handle returns the very state it was
  given: nothing more is released. If the stored pointer is not releasable, the dispose
  function does not return: it is a use after free in the native destructors, which is
  undefined behaviour and no error value.
\<close>

theorem garrow_table_dispose_twice:
  assumes "gobjects s h = Some g" and "g_type g = GARROW_TYPE_TABLE"
  shows "(releasable s (priv g) \<longrightarrow>
            (\<exists>s1. garrow_table_dispose h s = Inr s1 \<and>
                  gobjects s1 h = Some (g\<lparr>priv := None\<rparr>) \<and>
                  garrow_table_dispose h s1 = Inr s1 \<and>
                  (priv g = None \<longrightarrow> s1 = s) \<and>
                  (\<forall>a. priv g = Some a \<longrightarrow>
                     Suc (owners (tables s1) a) = owners (tables s) a \<and>
                     (\<forall>b. b \<noteq> a \<longrightarrow> tables s1 b = tables s b)))) \<and>
         (\<not> releasable s (priv g) \<longrightarrow> garrow_table_dispose h s = Inl UseAfterFree)"
proof (intro conjI impI)
  assume "releasable s (priv g)"
  with dispose_returns_iff [OF assms] obtain s1 where d: "garrow_table_dispose h s = Inr s1"
    by blast
  with assms have rel: "release_table (priv g) (store_priv h None s) = Inr s1"
    by (auto simp: garrow_table_dispose_def GARROW_TABLE_GET_PRIVATE_def g_object_real_dispose_def
        split: sum.splits)
  have g1: "gobjects s1 h = Some (g\<lparr>priv := None\<rparr>)"
    using release_table_frame [OF rel] assms by (simp add: store_priv_def)
  have "store_priv h None s1 = s1"
    using g1 by (intro store_priv_idem) auto
  then have again: "garrow_table_dispose h s1 = Inr s1"
    using g1 assms by (simp add: garrow_table_dispose_def GARROW_TABLE_GET_PRIVATE_def
        g_object_real_dispose_def release_table_def)
  have none: "s1 = s" if "priv g = None"
  proof -
    from that assms have "store_priv h None s = s" by (intro store_priv_idem) auto
    with rel that show ?thesis by (simp add: release_table_def)
  qed
  have some: "Suc (owners (tables s1) a) = owners (tables s) a \<and>
              (\<forall>b. b \<noteq> a \<longrightarrow> tables s1 b = tables s b)" if "priv g = Some a" for a
    using release_table_owners [of a "store_priv h None s" s1] rel that
    by (simp add: store_priv_def)
  from none have n: "priv g = None \<longrightarrow> s1 = s" by (rule impI)
  from some have a: "\<forall>a. priv g = Some a \<longrightarrow>
                     Suc (owners (tables s1) a) = owners (tables s) a \<and>
                     (\<forall>b. b \<noteq> a \<longrightarrow> tables s1 b = tables s b)"
    by (intro allI impI)
  from d g1 again n a
  have "garrow_table_dispose h s = Inr s1 \<and>
                  gobjects s1 h = Some (g\<lparr>priv := None\<rparr>) \<and>
                  garrow_table_dispose h s1 = Inr s1 \<and>
                  (priv g = None \<longrightarrow> s1 = s) \<and>
                  (\<forall>a. priv g = Some a \<longrightarrow>
                     Suc (owners (tables s1) a) = owners (tables s) a \<and>
                     (\<forall>b. b \<noteq> a \<longrightarrow> tables s1 b = tables s b))"
    by (intro conjI)
  then show "\<exists>s1. garrow_table_dispose h s = Inr s1 \<and>
                  gobjects s1 h = Some (g\<lparr>priv := None\<rparr>) \<and>
                  garrow_table_dispose h s1 = Inr s1 \<and>
                  (priv g = None \<longrightarrow> s1 = s) \<and>
                  (\<forall>a. priv g = Some a \<longrightarrow>
                     Suc (owners (tables s1) a) = owners (tables s) a \<and>
                     (\<forall>b. b \<noteq> a \<longrightarrow> tables s1 b = tables s b))"
    by (rule exI)
next
  assume "\<not> releasable s (priv g)"
  with dispose_returns_iff [OF assms] have "\<nexists>s1. garrow_table_dispose h s = Inr s1" by simp
  then obtain f where f: "garrow_table_dispose h s = Inl f"
    by (cases "garrow_table_dispose h s") auto
  from dispose_fault [OF this assms] f show "garrow_table_dispose h s = Inl UseAfterFree"
    by simp
qed

text \<open>
  In the small world: the only owner of the table \<open>t\<close> goes, and the table with it;
  and in the world where the column of \<open>t\<close> is gone already, the teardown is a use
  after free.
\<close>

theorem garrow_table_dispose_twice_witness:
  "releasable table_world (Some 4) \<and>
   garrow_table_dispose 5 table_world = Inr disposed_world \<and>
   garrow_table_dispose 5 disposed_world = Inr disposed_world \<and>
   raw_of table_world 5 = Some 4 \<and> raw_of disposed_world 5 = None \<and>
   owners (tables table_world) 4 = 1 \<and> owners (tables disposed_world) 4 = 0 \<and>
   \<not> releasable dangling_world (Some 4) \<and>
   garrow_table_dispose 5 dangling_world = Inl UseAfterFree"
proof -
  have r: "releasable table_world (Some 4)"
    by (simp add: releasable_def members_owned_def table_world_def table_t_def occurrences_def
        owners_def)
  have n: "\<not> releasable dangling_world (Some 4)"
    by (simp add: releasable_def members_owned_def dangling_world_def table_world_def table_t_def
        occurrences_def owners_def)
  from garrow_table_dispose_twice [OF table_world_handle] r
  have "garrow_table_dispose 5 disposed_world = Inr disposed_world"
    by (simp add: table_world_dispose)
  moreover from garrow_table_dispose_twice [OF dangling_world_handle] n
  have "garrow_table_dispose 5 dangling_world = Inl UseAfterFree"
    by simp
  ultimately show ?thesis
    using r n
    by (simp add: table_world_dispose)
       (simp add: table_world_def disposed_world_def raw_of_def owners_def)
qed

section \<open>Write once\<close>

text \<open>
  Claim C5. In a well-formed store every handle is out of construction. Setting the
  property \<^verbatim>\<open>"table"\<close> on a handle \<open>h\<close> through the framework is then refused: the
  call returns with the warning that a construct-only property cannot be set after
  construction, and \<open>h\<close> is as it was. Nor does anything else change what \<open>h\<close>
  stores: after every sequence of calls of the interface that returns and does not tear
  \<open>h\<close> down (accessors, property writes and reads, the making of new handles, the
  teardown of other handles), the instance at \<open>h\<close> is the one it was.
\<close>

theorem stored_reference_immutable:
  assumes "well_formed s" "gobjects s h = Some g"
  shows "g_object_set_property garrow_table_class h ''table'' v s =
           Inr (g_warning (CONSTRUCT_ONLY_AFTER_CONSTRUCTION ''table'') s) \<and>
         gobjects (g_warning (CONSTRUCT_ONLY_AFTER_CONSTRUCTION ''table'') s) h = Some g \<and>
         (\<forall>cs s'. run_calls cs s = Inr s' \<longrightarrow> On_handle Dispose h \<notin> set cs \<longrightarrow>
            gobjects s' h = Some g)"
proof (intro conjI allI impI)
  from assms have "\<not> in_construction g" by (auto simp: well_formed_def)
  with assms(2) show "g_object_set_property garrow_table_class h ''table'' v s =
           Inr (g_warning (CONSTRUCT_ONLY_AFTER_CONSTRUCTION ''table'') s)"
    by (rule set_property_rejected)
  show "gobjects (g_warning (CONSTRUCT_ONLY_AFTER_CONSTRUCTION ''table'') s) h = Some g"
    using assms(2) by (simp add: g_warning_def)
next
  fix cs s'
  assume "run_calls cs s = Inr s'" "On_handle Dispose h \<notin> set cs"
  from run_calls_steps [OF assms(1) this] assms(2) show "gobjects s' h = Some g"
    by blast
qed

text \<open>In the small world, for the handle at 5.\<close>

theorem stored_reference_immutable_witness:
  "well_formed table_world \<and> raw_of table_world 5 = Some 4 \<and>
   g_object_set_property garrow_table_class 5 ''table'' (AddressOf None) table_world =
     Inr (g_warning (CONSTRUCT_ONLY_AFTER_CONSTRUCTION ''table'') table_world) \<and>
   raw_of (g_warning (CONSTRUCT_ONLY_AFTER_CONSTRUCTION ''table'') table_world) 5 = Some 4 \<and>
   run_calls [On_handle Get_n_rows 5, On_handle (Set_property ''table'' NULL) 5,
              Wrap (AddressOf (Some 4)), On_handle Dispose 6] table_world =
     Inr (table_world\<lparr>warnings := [CONSTRUCT_ONLY_AFTER_CONSTRUCTION ''table''],
          gobjects := (gobjects table_world)(6 \<mapsto>
             \<lparr>g_type = GARROW_TYPE_TABLE, priv = None, in_construction = False\<rparr>),
          next_addr := 7\<rparr>) \<and>
   raw_of (table_world\<lparr>warnings := [CONSTRUCT_ONLY_AFTER_CONSTRUCTION ''table''],
          gobjects := (gobjects table_world)(6 \<mapsto>
             \<lparr>g_type = GARROW_TYPE_TABLE, priv = None, in_construction = False\<rparr>),
          next_addr := 7\<rparr>) 5 = Some 4"
proof -
  note th = stored_reference_immutable [OF well_formed_table_world table_world_handle,
      of "AddressOf None"]
  have d: "On_handle Dispose 5 \<notin> set [On_handle Get_n_rows 5,
      On_handle (Set_property ''table'' NULL) 5, Wrap (AddressOf (Some 4)), On_handle Dispose 6]"
    by simp
  from th table_world_calls d
  have "gobjects (table_world\<lparr>warnings := [CONSTRUCT_ONLY_AFTER_CONSTRUCTION ''table''],
          gobjects := (gobjects table_world)(6 \<mapsto>
             \<lparr>g_type = GARROW_TYPE_TABLE, priv = None, in_construction = False\<rparr>),
          next_addr := 7\<rparr>) 5 =
        Some \<lparr>g_type = GARROW_TYPE_TABLE, priv = Some 4, in_construction = False\<rparr>"
    by blast
  moreover from th have
    "g_object_set_property garrow_table_class 5 ''table'' (AddressOf None) table_world =
       Inr (g_warning (CONSTRUCT_ONLY_AFTER_CONSTRUCTION ''table'') table_world)"
    "gobjects (g_warning (CONSTRUCT_ONLY_AFTER_CONSTRUCTION ''table'') table_world) 5 =
       Some \<lparr>g_type = GARROW_TYPE_TABLE, priv = Some 4, in_construction = False\<rparr>"
    by blast+
  ultimately show ?thesis
    using well_formed_table_world table_world_calls table_world_handle
    by (simp add: raw_of_def)
qed

section \<open>Construction without a native value\<close>

text \<open>
  Claim C6, as amended. Constructing a table handle with \<^verbatim>\<open>NULL\<close> for the property
  \<^verbatim>\<open>"table"\<close>, or with the property left out (the framework then passes the default of
  a pointer property, \<^verbatim>\<open>NULL\<close>), dereferences the null pointer in
  \<^verbatim>\<open>garrow_table_set_property\<close>: the construction faults, and there is neither a handle
  nor an error value. Constructing it with the address of an empty shared pointer
  succeeds: the result is a handle that stores the empty pointer, and the name, column
  count and row count accessors fault on it by dereferencing that pointer.
\<close>

theorem construction_without_reference:
  "garrow_table_new_raw NULL s = Inl NullDereference \<and>
   g_object_new garrow_table_class GARROW_TYPE_TABLE garrow_table_init [] s = Inl NullDereference \<and>
   garrow_table_new_raw (AddressOf None) s =
     Inr (next_addr s,
          s\<lparr>gobjects := (gobjects s)(next_addr s \<mapsto>
               \<lparr>g_type = GARROW_TYPE_TABLE, priv = None, in_construction = False\<rparr>),
            next_addr := Suc (next_addr s)\<rparr>) \<and>
   garrow_table_get_name (next_addr s)
     (s\<lparr>gobjects := (gobjects s)(next_addr s \<mapsto>
               \<lparr>g_type = GARROW_TYPE_TABLE, priv = None, in_construction = False\<rparr>),
            next_addr := Suc (next_addr s)\<rparr>) = Inl NullDereference \<and>
   garrow_table_get_n_columns (next_addr s)
     (s\<lparr>gobjects := (gobjects s)(next_addr s \<mapsto>
               \<lparr>g_type = GARROW_TYPE_TABLE, priv = None, in_construction = False\<rparr>),
            next_addr := Suc (next_addr s)\<rparr>) = Inl NullDereference \<and>
   garrow_table_get_n_rows (next_addr s)
     (s\<lparr>gobjects := (gobjects s)(next_addr s \<mapsto>
               \<lparr>g_type = GARROW_TYPE_TABLE, priv = None, in_construction = False\<rparr>),
            next_addr := Suc (next_addr s)\<rparr>) = Inl NullDereference"
  by (simp add: garrow_table_new_raw_eq retain_table_def sp_retain_def
      g_object_new_def garrow_table_class_simps is_construct_def garrow_table_init_def
      garrow_table_set_property_def GARROW_TABLE_GET_PRIVATE_def
      garrow_table_get_name_def garrow_table_get_n_columns_def garrow_table_get_n_rows_def
      garrow_table_get_raw_def deref_def)

text \<open>
  Claim C6 as first stated, that a construction with a null reference fails, does not
  hold: with the address of an empty shared pointer, the construction in the small world
  returns the handle at address 4.
\<close>

theorem null_reference_yields_handle:
  "garrow_table_new_raw (AddressOf None) scenario =
     Inr (4, scenario\<lparr>gobjects := (gobjects scenario)(4 \<mapsto>
               \<lparr>g_type = GARROW_TYPE_TABLE, priv = None, in_construction = False\<rparr>),
            next_addr := 5\<rparr>)"
  by (simp add: garrow_table_new_raw_eq retain_table_def sp_retain_def scenario_def)

section \<open>Indexing columns\<close>

text \<open>
  Claim C7. \<^verbatim>\<open>garrow_table_get_column\<close> hands its index to the native \<^verbatim>\<open>column\<close>
  operation with the bits it received and compares it with nothing. Whatever fault the
  native indexing has at that index is the outcome of the wrapper: for an index outside
  of the vector that is the undefined behaviour of the native indexing, and the wrapper
  returns no value at all. Where the native operation answers with a live column, the
  wrapper returns a new column handle for it.
\<close>

theorem get_column_forwards_index:
  assumes "wraps s h a V"
  shows "int_of_guint i = i \<and>
     (\<forall>f. Table_column V (int_of_guint i) = Inl f \<longrightarrow> garrow_table_get_column h i s = Inl f) \<and>
     (\<not> (0 \<le> sint i \<and> nat (sint i) < length (table_columns V)) \<longrightarrow>
        garrow_table_get_column h i s = Inl OutOfBounds) \<and>
     (\<forall>p. Table_column V (int_of_guint i) = Inr p \<longrightarrow> live (columns s) p \<longrightarrow>
        garrow_table_get_column h i s =
          Inr (next_addr s,
               s\<lparr>columns := more_owners (occurrences [p]) (columns s),
                 gobjects := (gobjects s)(next_addr s \<mapsto>
                    \<lparr>g_type = GARROW_TYPE_COLUMN, priv = p, in_construction = False\<rparr>),
                 next_addr := Suc (next_addr s)\<rparr>))"
proof (intro conjI allI impI)
  show "int_of_guint i = i" by (rule int_of_guint_same_bits)
next
  fix f assume "Table_column V (int_of_guint i) = Inl f"
  with assms show "garrow_table_get_column h i s = Inl f"
    by (rule garrow_table_get_column_fault)
next
  assume "\<not> (0 \<le> sint i \<and> nat (sint i) < length (table_columns V))"
  then have "Table_column V (int_of_guint i) = Inl OutOfBounds"
    by (simp add: Table_column_def int_of_guint_same_bits)
  with assms show "garrow_table_get_column h i s = Inl OutOfBounds"
    by (rule garrow_table_get_column_fault)
next
  fix p assume "Table_column V (int_of_guint i) = Inr p" "live (columns s) p"
  with assms show "garrow_table_get_column h i s =
          Inr (next_addr s,
               s\<lparr>columns := more_owners (occurrences [p]) (columns s),
                 gobjects := (gobjects s)(next_addr s \<mapsto>
                    \<lparr>g_type = GARROW_TYPE_COLUMN, priv = p, in_construction = False\<rparr>),
                 next_addr := Suc (next_addr s)\<rparr>)"
    by (rule garrow_table_get_column_ok)
qed

text \<open>In the small world, whose table has one column: the indices 1, \<open>2 ^ 32 - 1\<close> and 0.\<close>

theorem get_column_forwards_index_witness:
  "wraps table_world 5 4 table_t \<and>
   garrow_table_get_column 5 1 table_world = Inl OutOfBounds \<and>
   garrow_table_get_column 5 (- 1) table_world = Inl OutOfBounds \<and>
   garrow_table_get_column 5 0 table_world =
     Inr (6, table_world\<lparr>columns := more_owners (occurrences [Some 0]) (columns table_world),
                gobjects := (gobjects table_world)(6 \<mapsto>
                    \<lparr>g_type = GARROW_TYPE_COLUMN, priv = Some 0, in_construction = False\<rparr>),
                next_addr := 7\<rparr>)"
proof -
  have c0: "Table_column table_t (int_of_guint 0) = Inr (Some 0)"
    by (simp add: Table_column_def int_of_guint_def table_t_def)
  have n: "next_addr table_world = 6" by (simp add: table_world_def)
  from get_column_forwards_index [OF table_world_wraps, of 1]
  have "garrow_table_get_column 5 1 table_world = Inl OutOfBounds"
    by (simp add: table_t_def)
  moreover from get_column_forwards_index [OF table_world_wraps, of "- 1"]
  have "garrow_table_get_column 5 (- 1) table_world = Inl OutOfBounds"
    by simp
  moreover from get_column_forwards_index [OF table_world_wraps, of 0] c0 table_world_column_live
  have "garrow_table_get_column 5 0 table_world =
     Inr (6, table_world\<lparr>columns := more_owners (occurrences [Some 0]) (columns table_world),
                gobjects := (gobjects table_world)(6 \<mapsto>
                    \<lparr>g_type = GARROW_TYPE_COLUMN, priv = Some 0, in_construction = False\<rparr>),
                next_addr := 7\<rparr>)"
    by (simp add: n)
  ultimately show ?thesis
    using table_world_wraps by simp
qed

section \<open>Counting owners\<close>

text \<open>
  Claim C8. Let the native table at \<open>a\<close> be live. Wrapping it with
  \<^verbatim>\<open>garrow_table_new_raw\<close> succeeds and adds exactly one owner; wrapping it a second
  time adds exactly one more, in a second handle. Disposing of the first handle takes
  exactly one owner away, disposing of the second one more: the count is back where it
  started, and nothing was destroyed. A table made by \<^verbatim>\<open>garrow_table_new\<close> from valid
  handles has exactly one owner, its handle; disposing of that handle succeeds, destroys
  the native table (it leaves the heap, and the log of destructions grows by this one
  entry), and leaves the columns and the schema with the owners they had before the
  table was made. And the count is never short: in a well-formed store, after every
  sequence of calls that returns, no native table has more handles holding it than it
  has owners.
\<close>

theorem reference_counting:
  assumes "live (tables s) (Some a)"
    and "schema_handle_ok s schema" and "\<forall>h \<in> set cols. column_handle_ok s h"
  shows "(\<exists>s1 s2 s3 s4.
           garrow_table_new_raw (AddressOf (Some a)) s = Inr (next_addr s, s1) \<and>
           owners (tables s1) a = owners (tables s) a + 1 \<and>
           garrow_table_new_raw (AddressOf (Some a)) s1 = Inr (Suc (next_addr s), s2) \<and>
           owners (tables s2) a = owners (tables s) a + 2 \<and>
           garrow_table_dispose (next_addr s) s2 = Inr s3 \<and>
           owners (tables s3) a = owners (tables s) a + 1 \<and>
           garrow_table_dispose (Suc (next_addr s)) s3 = Inr s4 \<and>
           owners (tables s4) a = owners (tables s) a \<and>
           tables s4 = tables s \<and> columns s4 = columns s \<and> schemas s4 = schemas s \<and>
           destroyed s4 = destroyed s) \<and>
         (\<exists>s1. garrow_table_new name schema cols s = Inr (Suc (next_addr s), s1) \<and>
           wraps s1 (Suc (next_addr s)) (next_addr s) (built_table name schema cols s) \<and>
           owners (tables s1) (next_addr s) = 1 \<and>
           garrow_table_dispose (Suc (next_addr s)) s1 =
             Inr (s\<lparr>tables := (tables s)(next_addr s := None),
                   gobjects := (gobjects s)(Suc (next_addr s) \<mapsto>
                      \<lparr>g_type = GARROW_TYPE_TABLE, priv = None, in_construction = False\<rparr>),
                   next_addr := Suc (Suc (next_addr s)),
                   destroyed := destroyed s @ [next_addr s]\<rparr>)) \<and>
         (well_formed s \<longrightarrow>
            (\<forall>cs s'. run_calls cs s = Inr s' \<longrightarrow>
               (\<forall>b. card (holders s' b) \<le> owners (tables s') b)))"
proof -
  from assms(1) obtain c where c: "tables s a = Some c" "0 < use_count c"
    by (auto simp: live_def split: option.splits)
  have "\<forall>b. card (holders s' b) \<le> owners (tables s') b"
    if "well_formed s" "run_calls cs s = Inr s'" for cs s'
    using run_calls_well_formed [OF that] by (simp add: well_formed_def)
  then show ?thesis
    using wrap_twice [OF c] new_then_dispose [OF assms(2,3), of name]
    by (intro conjI) blast+
qed

text \<open>In the small world, for the table at address 4 and a second table \<open>u\<close>.\<close>

theorem reference_counting_witness:
  "live (tables table_world) (Some 4) \<and> owners (tables table_world) 4 = 1 \<and>
   well_formed table_world \<and>
   (\<exists>s1 s2 s3 s4.
      garrow_table_new_raw (AddressOf (Some 4)) table_world = Inr (6, s1) \<and>
      owners (tables s1) 4 = 2 \<and>
      garrow_table_new_raw (AddressOf (Some 4)) s1 = Inr (7, s2) \<and>
      owners (tables s2) 4 = 3 \<and>
      garrow_table_dispose 6 s2 = Inr s3 \<and> owners (tables s3) 4 = 2 \<and>
      garrow_table_dispose 7 s3 = Inr s4 \<and> owners (tables s4) 4 = 1) \<and>
   (\<exists>s1. garrow_table_new ''u'' 3 [2] table_world = Inr (7, s1) \<and>
      owners (tables s1) 6 = 1 \<and>
      garrow_table_dispose 7 s1 =
        Inr (table_world\<lparr>gobjects := (gobjects table_world)(7 \<mapsto>
                \<lparr>g_type = GARROW_TYPE_TABLE, priv = None, in_construction = False\<rparr>),
              next_addr := 8, destroyed := [6]\<rparr>))"
proof -
  have n: "next_addr table_world = 6" and o: "owners (tables table_world) 4 = 1"
    and d: "destroyed table_world = []" and t6: "(tables table_world)(6 := None) = tables table_world"
    by (simp_all add: table_world_def owners_def)
  have a: "\<exists>s1 s2 s3 s4.
      garrow_table_new_raw (AddressOf (Some 4)) table_world = Inr (6, s1) \<and>
      owners (tables s1) 4 = 2 \<and>
      garrow_table_new_raw (AddressOf (Some 4)) s1 = Inr (7, s2) \<and>
      owners (tables s2) 4 = 3 \<and>
      garrow_table_dispose 6 s2 = Inr s3 \<and> owners (tables s3) 4 = 2 \<and>
      garrow_table_dispose 7 s3 = Inr s4 \<and> owners (tables s4) 4 = 1"
    using reference_counting [OF table_world_handles, of "''u''", THEN conjunct1]
    unfolding n o by (elim exE conjE) (intro exI conjI, assumption, simp, simp, simp, simp, simp, simp, simp)
  have b: "\<exists>s1. garrow_table_new ''u'' 3 [2] table_world = Inr (7, s1) \<and>
      owners (tables s1) 6 = 1 \<and>
      garrow_table_dispose 7 s1 =
        Inr (table_world\<lparr>gobjects := (gobjects table_world)(7 \<mapsto>
                \<lparr>g_type = GARROW_TYPE_TABLE, priv = None, in_construction = False\<rparr>),
              next_addr := 8, destroyed := [6]\<rparr>)"
    using reference_counting [OF table_world_handles, of "''u''", THEN conjunct2, THEN conjunct1]
    unfolding n d t6 by (elim exE conjE) (intro exI conjI, simp, simp, simp)
  from a b table_world_handles(1) o well_formed_table_world show ?thesis by (intro conjI)
qed

section \<open>Nested values\<close>



section \<open>Reading the property\<close>

text \<open>
  Claim C10. \<^verbatim>\<open>garrow_table_get_property\<close> does the same for every property id, the id
  of \<^verbatim>\<open>"table"\<close> included: it logs the invalid-property warning, hands back the
  caller's value untouched and leaves every instance as it was. Through the framework the
  property cannot be read either: \<^verbatim>\<open>g_object_get_property\<close> for \<^verbatim>\<open>"table"\<close> on an
  existing handle returns the caller's value with the warning that the property is not
  readable, and for no property name does it return anything but the caller's own value.
\<close>

theorem table_property_write_only:
  "garrow_table_get_property h prop_id v pspec s =
     (v, g_warning (INVALID_PROPERTY_ID GARROW_TYPE_TABLE prop_id) s) \<and>
   gobjects (g_warning (INVALID_PROPERTY_ID GARROW_TYPE_TABLE prop_id) s) = gobjects s \<and>
   (\<forall>g. gobjects s h = Some g \<longrightarrow>
      g_object_get_property garrow_table_class h ''table'' v s =
        Inr (v, g_warning (NOT_READABLE ''table'') s)) \<and>
   (\<forall>name r s'. g_object_get_property garrow_table_class h name v s = Inr (r, s') \<longrightarrow>
      r = v \<and> gobjects s' = gobjects s)"
proof (intro conjI allI impI)
  show "garrow_table_get_property h prop_id v pspec s =
     (v, g_warning (INVALID_PROPERTY_ID GARROW_TYPE_TABLE prop_id) s)"
    by (simp add: garrow_table_get_property_def)
  show "gobjects (g_warning (INVALID_PROPERTY_ID GARROW_TYPE_TABLE prop_id) s) = gobjects s"
    by (simp add: g_warning_def)
next
  fix g assume "gobjects s h = Some g"
  then show "g_object_get_property garrow_table_class h ''table'' v s =
        Inr (v, g_warning (NOT_READABLE ''table'') s)"
    by (simp add: g_object_get_property_def find_pspec_def garrow_table_class_simps)
next
  fix name r s'
  assume "g_object_get_property garrow_table_class h name v s = Inr (r, s')"
  from get_property_frame [OF this] show "r = v" "gobjects s' = gobjects s" by simp_all
qed

text \<open>In the small world, for the handle at 5 and the property id of \<^verbatim>\<open>"table"\<close>.\<close>

theorem table_property_write_only_witness:
  "garrow_table_get_property 5 PROP_TABLE NULL
     \<lparr>pspec_name = ''table'', pspec_nick = ''Table'',
      pspec_blurb = ''The raw std::shared<arrow::Table> *'',
      pspec_flags = {G_PARAM_WRITABLE, G_PARAM_CONSTRUCT_ONLY}, param_id = PROP_TABLE\<rparr> table_world =
     (NULL, g_warning (INVALID_PROPERTY_ID GARROW_TYPE_TABLE 1) table_world) \<and>
   g_object_get_property garrow_table_class 5 ''table'' NULL table_world =
     Inr (NULL, g_warning (NOT_READABLE ''table'') table_world) \<and>
   raw_of (g_warning (NOT_READABLE ''table'') table_world) 5 = Some 4"
  using table_property_write_only [of 5 PROP_TABLE NULL _ table_world] table_world_handle
  by (simp add: PROP_TABLE_def raw_of_def g_warning_def)

end
